theory Spec2Isabelle
  imports Complex_Main "HOL-Library.AList" "HOL-Library.Log_Nat" "HOL-Library.Sublist" "HOL-Library.Multiset"
begin

section \<open>Mask-editing tool: \<open>remove_test_mask\<close>\<close>

text \<open>
  File \<^verbatim>\<open>tests/end2end-tests/data_gen/remove_test_mask.py\<close>.  A feature bundle is a Python
  \<^verbatim>\<open>dict\<close> from feature names to tensors; it is modelled as an association list in insertion
  order.  \<^verbatim>\<open>'test_mask' not in name\<close> is Python's substring test on strings: the pattern
  occurs at some position of \<^verbatim>\<open>name\<close>.
\<close>

fun str_contains :: "string \<Rightarrow> string \<Rightarrow> bool" where
  "str_contains sub [] = (sub = [])"
| "str_contains sub (c # cs) = (prefix sub (c # cs) \<or> str_contains sub cs)"

text \<open>
  The body of the loop \<^verbatim>\<open>for name in data\<close>: \<^verbatim>\<open>new_data[name] = data[name]\<close> under the
  guard.  \<^verbatim>\<open>data[name]\<close> is the lookup \<open>map_of data name\<close>; it cannot miss, since \<open>name\<close>
  is a key of \<open>data\<close>.  Assignment to a dict entry replaces the value of an existing key in
  place and appends a new key at the end, which is \<open>AList.update\<close>.
\<close>

definition remove_test_mask_step ::
  "(string \<times> 'v) list \<Rightarrow> (string \<times> 'v) list \<Rightarrow> string \<Rightarrow> (string \<times> 'v) list" where
  "remove_test_mask_step data new_data name =
     (if \<not> str_contains ''test_mask'' name
      then (case map_of data name of
              Some v \<Rightarrow> AList.update name v new_data
            | None \<Rightarrow> new_data)
      else new_data)"

definition remove_test_mask :: "(string \<times> 'v) list \<Rightarrow> (string \<times> 'v) list" where
  "remove_test_mask data = foldl (remove_test_mask_step data) [] (map fst data)"


section \<open>The per-edge-type balanced loader \<open>AllEtypeDistEdgeDataLoader\<close>\<close>

text \<open>
  File \<^verbatim>\<open>python/graphstorm/dataloading/dataloading.py\<close>, class
  \<^verbatim>\<open>AllEtypeDistEdgeDataLoader\<close>.  The fields \<^verbatim>\<open>dataset\<close>, \<^verbatim>\<open>batch_size\<close>, \<^verbatim>\<open>shuffle\<close>,
  \<^verbatim>\<open>drop_last\<close>, \<^verbatim>\<open>expected_idxs\<close>, \<^verbatim>\<open>recv_idxs\<close> and \<^verbatim>\<open>num_pending\<close> are those of the base
  class \<^verbatim>\<open>DistDataLoader\<close>; the others are set by \<^verbatim>\<open>_reinit_dataset\<close>.  The dict
  \<^verbatim>\<open>dataset\<close> (edge type to the tensor of its target edge IDs) and the dict \<^verbatim>\<open>data_idx\<close> are
  iterated, so they are association lists in insertion order; \<^verbatim>\<open>bs_per_type\<close> and
  \<^verbatim>\<open>current_pos\<close> are only read and written by key, so they are maps.  Python integers are
  \<open>int\<close>; positions into a tensor that the code produces with \<^verbatim>\<open>th.arange\<close> and
  \<^verbatim>\<open>th.randperm\<close> are \<open>nat\<close>.
\<close>

datatype loader_error =
  ZeroDivisionError | OverflowError | KeyError | IndexError | RuntimeError

record ('k, 'e) all_etype_loader =
  dataset :: "('k \<times> 'e list) list"
  batch_size :: int
  shuffle :: bool
  drop_last :: bool
  data_idx :: "('k \<times> nat list) list"
  bs_per_type :: "'k \<rightharpoonup> int"
  expected_idxs :: int
  current_pos :: "'k \<rightharpoonup> int"
  recv_idxs :: int
  num_pending :: int

text \<open>
  \<^verbatim>\<open>xs[a:b]\<close> on a list or tensor, with Python's treatment of negative and out-of-range
  bounds; and \<^verbatim>\<open>t[idx]\<close> for a tensor \<open>t\<close> and a list of positions \<open>idx\<close>, which raises
  \<^verbatim>\<open>IndexError\<close> for a position outside the tensor.
\<close>

definition py_slice :: "'a list \<Rightarrow> int \<Rightarrow> int \<Rightarrow> 'a list" where
  "py_slice xs a b =
     (let n = int (length xs);
          lo = (if a < 0 then max (a + n) 0 else min a n);
          hi = (if b < 0 then max (b + n) 0 else min b n)
      in take (nat (hi - lo)) (drop (nat lo) xs))"

definition tensor_index :: "'e list \<Rightarrow> nat list \<Rightarrow> loader_error + 'e list" where
  "tensor_index t idx =
     (if \<forall>i \<in> set idx. i < length t then Inr (map (\<lambda>i. t ! i) idx) else Inl IndexError)"

text \<open>
  \<^verbatim>\<open>th.randint(high, (1,))\<close> draws one position below \<open>high\<close> and raises for \<open>high = 0\<close>.
  The random source is explicit: \<open>raw\<close> is the raw draw, reduced to the range.
\<close>

definition th_randint :: "nat \<Rightarrow> nat \<Rightarrow> loader_error + nat" where
  "th_randint high raw = (if high = 0 then Inl RuntimeError else Inr (raw mod high))"

text \<open>
  \<^verbatim>\<open>a / b\<close> for Python integers is true division: the result is the binary64 float nearest
  to the exact quotient, ties going to the even significand; a zero divisor raises
  \<^verbatim>\<open>ZeroDivisionError\<close>, and a quotient that rounds to \<open>2 ^ 1024\<close> or more raises
  \<^verbatim>\<open>OverflowError\<close>.  A float is written as a pair \<open>(m, e)\<close> of integers, its value being
  \<open>m * 2 ^ e\<close>: \<open>\<bar>m\<bar> \<le> 2 ^ 53\<close>, and \<open>e\<close> is not below \<open>- 1074\<close>, the exponent of the
  subnormal numbers.

  \<open>round_half_even p q\<close> is the integer nearest to \<open>p / q\<close> for \<open>q > 0\<close>, the even one of two
  nearest; \<open>quotient_exponent p q\<close> is the integer \<open>L\<close> with \<open>2 ^ L \<le> p / q < 2 ^ (L + 1)\<close>, for
  positive \<open>p\<close> and \<open>q\<close>, found from the bit lengths of the two numbers.
\<close>

definition round_half_even :: "int \<Rightarrow> int \<Rightarrow> int" where
  "round_half_even p q =
     (let f = p div q; r = p mod q
      in if 2 * r < q \<or> (2 * r = q \<and> even f) then f else f + 1)"

definition quotient_exponent :: "int \<Rightarrow> int \<Rightarrow> int" where
  "quotient_exponent p q =
     (let d = bitlen p - bitlen q
      in if q * 2 ^ nat d \<le> p * 2 ^ nat (- d) then d else d - 1)"

type_synonym py_float = "int \<times> int"

definition int_truediv :: "int \<Rightarrow> int \<Rightarrow> loader_error + py_float" where
  "int_truediv a b =
     (if b = 0 then Inl ZeroDivisionError
      else if a = 0 then Inr (0, 0)
      else
        let p = \<bar>a\<bar>; q = \<bar>b\<bar>;
            e = max (quotient_exponent p q - 52) (- 1074);
            m = round_half_even (p * 2 ^ nat (- e)) (q * 2 ^ nat e)
        in if 2 ^ 1024 \<le> m * 2 ^ nat e then Inl OverflowError
           else Inr (sgn a * sgn b * m, e))"

text \<open>\<^verbatim>\<open>math.ceil\<close> of a float is the exact ceiling of its value, a Python integer.\<close>

definition math_ceil :: "py_float \<Rightarrow> int" where
  "math_ceil x =
     (case x of (m, e) \<Rightarrow>
        if 0 \<le> e then m * 2 ^ nat e else - ((- m) div 2 ^ nat (- e)))"

text \<open>\<^verbatim>\<open>math.ceil(a / b)\<close> for integers \<open>a\<close> and \<open>b\<close>.\<close>

definition ceil_truediv :: "int \<Rightarrow> int \<Rightarrow> loader_error + int" where
  "ceil_truediv a b =
     (case int_truediv a b of Inl err \<Rightarrow> Inl err | Inr x \<Rightarrow> Inr (math_ceil x))"

text \<open>
  The second loop of \<^verbatim>\<open>_reinit_dataset\<close>, over \<^verbatim>\<open>self.data_idx.items()\<close>.  The quotient
  \<^verbatim>\<open>batch_size * len(idxs) / total_edges\<close> is a float; \<^verbatim>\<open>len(idxs) // bs\<close> and
  \<^verbatim>\<open>len(idxs) % bs\<close> are integer operations and raise \<^verbatim>\<open>ZeroDivisionError\<close> for \<open>bs = 0\<close>.
  Integer division \<open>div\<close> and \<open>mod\<close> on \<open>int\<close> round towards minus infinity, as \<^verbatim>\<open>//\<close> and
  \<^verbatim>\<open>%\<close> do.
\<close>

fun reinit_loop ::
  "int \<Rightarrow> bool \<Rightarrow> int \<Rightarrow> ('k \<times> nat list) list \<Rightarrow> ('k \<rightharpoonup> int) \<Rightarrow> int
     \<Rightarrow> loader_error + (('k \<rightharpoonup> int) \<times> int)" where
  "reinit_loop B dl total_edges [] bs_per_type' max_expected_idxs =
     Inr (bs_per_type', max_expected_idxs)"
| "reinit_loop B dl total_edges ((etype, idxs) # rest) bs_per_type' max_expected_idxs =
     (case ceil_truediv (B * int (length idxs)) total_edges of
        Inl err \<Rightarrow> Inl err
      | Inr bs \<Rightarrow>
          if bs = 0 then Inl ZeroDivisionError
          else
            let exp_idxs = int (length idxs) div bs;
                exp_idxs = (if \<not> dl \<and> int (length idxs) mod bs \<noteq> 0
                            then exp_idxs + 1 else exp_idxs)
            in reinit_loop B dl total_edges rest
                 (bs_per_type'(etype \<mapsto> bs)) (max max_expected_idxs exp_idxs))"

text \<open>
  \<^verbatim>\<open>_reinit_dataset\<close>.  The first loop fills \<^verbatim>\<open>data_idx[key] = th.arange(0, len(val))\<close> and
  sums the lengths; the keys of a dict are distinct, so the loop is a map over the items.
\<close>

definition reinit_dataset ::
  "('k, 'e) all_etype_loader \<Rightarrow> loader_error + ('k, 'e) all_etype_loader" where
  "reinit_dataset self =
     (let data_idx' = map (\<lambda>(key, val). (key, [0..<length val])) (dataset self);
          total_edges = sum_list (map (\<lambda>(key, val). int (length val)) (dataset self))
      in case reinit_loop (batch_size self) (drop_last self) total_edges data_idx' Map.empty 0 of
           Inl e \<Rightarrow> Inl e
         | Inr (bs_per_type', max_expected_idxs) \<Rightarrow>
             Inr (self\<lparr>data_idx := data_idx',
                       bs_per_type := bs_per_type',
                       expected_idxs := max_expected_idxs,
                       current_pos := map_of (map (\<lambda>(etype, _). (etype, 0)) data_idx')\<rparr>))"

text \<open>
  \<^verbatim>\<open>__init__\<close>: the base class stores the keyword arguments and \<^verbatim>\<open>_reinit_dataset\<close> runs.
  The sampler, the collator and the device are not modelled.
\<close>

definition AllEtypeDistEdgeDataLoader ::
  "('k \<times> 'e list) list \<Rightarrow> int \<Rightarrow> bool \<Rightarrow> bool \<Rightarrow> loader_error + ('k, 'e) all_etype_loader" where
  "AllEtypeDistEdgeDataLoader eids B sh dl =
     reinit_dataset \<lparr>dataset = eids, batch_size = B, shuffle = sh, drop_last = dl,
                     data_idx = [], bs_per_type = Map.empty, expected_idxs = 0,
                     current_pos = Map.empty, recv_idxs = 0, num_pending = 0\<rparr>"

text \<open>
  \<^verbatim>\<open>__iter__\<close>.  \<open>randperm etype\<close> is the outcome of \<^verbatim>\<open>th.randperm(len(idxs))\<close> for that
  edge type in this call: a permutation of \<open>[0..<len(idxs)]\<close>.
\<close>

definition loader_iter ::
  "('k \<Rightarrow> nat list) \<Rightarrow> ('k, 'e) all_etype_loader \<Rightarrow> ('k, 'e) all_etype_loader" where
  "loader_iter randperm self =
     (let data_idx' = (if shuffle self
                       then map (\<lambda>(etype, idxs). (etype, randperm etype)) (data_idx self)
                       else data_idx self)
      in self\<lparr>data_idx := data_idx',
               current_pos := map_of (map (\<lambda>(etype, _). (etype, 0)) data_idx'),
               recv_idxs := 0, num_pending := 0\<rparr>)"

text \<open>
  \<^verbatim>\<open>_next_data_etype\<close>.  The four dict lookups raise \<^verbatim>\<open>KeyError\<close> for a missing key.  The
  function returns \<^verbatim>\<open>None\<close> in two places: when \<^verbatim>\<open>current_pos\<close> has reached the end, and
  when fewer than \<^verbatim>\<open>bs_per_type\<close> edges remain and \<^verbatim>\<open>drop_last\<close> is set.
\<close>

definition next_data_etype ::
  "('k, 'e) all_etype_loader \<Rightarrow> 'k
     \<Rightarrow> loader_error + ('e list option \<times> ('k, 'e) all_etype_loader)" where
  "next_data_etype self etype =
     (case (current_pos self etype, map_of (dataset self) etype,
            bs_per_type self etype, map_of (data_idx self) etype) of
        (Some pos, Some eids, Some bs, Some idxs) \<Rightarrow>
          if pos = int (length eids) then Inr (None, self)
          else if pos + bs > int (length eids) \<and> drop_last self then Inr (None, self)
          else
            let end_pos = (if pos + bs > int (length eids) then int (length eids)
                           else pos + bs);
                idx = py_slice idxs pos end_pos
            in (case tensor_index eids idx of
                  Inl e \<Rightarrow> Inl e
                | Inr ret \<Rightarrow>
                    Inr (Some ret, self\<lparr>current_pos := (current_pos self)(etype \<mapsto> end_pos)\<rparr>))
      | _ \<Rightarrow> Inl KeyError)"

text \<open>\<^verbatim>\<open>_rand_gen\<close>: one edge of the type, drawn at random (before \<^verbatim>\<open>.item()\<close>).\<close>

definition rand_gen :: "('k, 'e) all_etype_loader \<Rightarrow> 'k \<Rightarrow> nat \<Rightarrow> loader_error + 'e" where
  "rand_gen self etype raw =
     (case map_of (dataset self) etype of
        None \<Rightarrow> Inl KeyError
      | Some eids \<Rightarrow>
          (case th_randint (length eids) raw of
             Inl e \<Rightarrow> Inl e
           | Inr r \<Rightarrow> Inr (eids ! r)))"

text \<open>
  \<^verbatim>\<open>_next_data\<close>.  The first loop calls \<^verbatim>\<open>_next_data_etype\<close> for every edge type of
  \<^verbatim>\<open>self.dataset\<close> and collects \<^verbatim>\<open>(etype, next_data)\<close>; the second loop, entered unless every
  type returned \<^verbatim>\<open>None\<close>, flattens the pairs and draws one random edge for every type whose
  entry is \<^verbatim>\<open>None\<close>.  \<open>rand etype\<close> is the raw random draw for that type in this call.
\<close>

fun next_data_loop ::
  "'k list \<Rightarrow> ('k, 'e) all_etype_loader \<Rightarrow> bool \<Rightarrow> ('k \<times> 'e list option) list
     \<Rightarrow> loader_error + (bool \<times> ('k \<times> 'e list option) list \<times> ('k, 'e) all_etype_loader)" where
  "next_data_loop [] self end ret = Inr (end, ret, self)"
| "next_data_loop (etype # rest) self end ret =
     (case next_data_etype self etype of
        Inl e \<Rightarrow> Inl e
      | Inr (next_data, self') \<Rightarrow>
          next_data_loop rest self' ((next_data = None) \<and> end) (ret @ [(etype, next_data)]))"

fun new_ret_loop ::
  "('k \<Rightarrow> nat) \<Rightarrow> ('k, 'e) all_etype_loader \<Rightarrow> ('k \<times> 'e list option) list
     \<Rightarrow> ('k \<times> 'e) list \<Rightarrow> loader_error + ('k \<times> 'e) list" where
  "new_ret_loop rand self [] new_ret = Inr new_ret"
| "new_ret_loop rand self ((etype, None) # rest) new_ret =
     (case rand_gen self etype (rand etype) of
        Inl e \<Rightarrow> Inl e
      | Inr x \<Rightarrow> new_ret_loop rand self rest (new_ret @ [(etype, x)]))"
| "new_ret_loop rand self ((etype, Some eids) # rest) new_ret =
     new_ret_loop rand self rest (new_ret @ map (\<lambda>data. (etype, data)) eids)"

definition next_data ::
  "('k \<Rightarrow> nat) \<Rightarrow> ('k, 'e) all_etype_loader
     \<Rightarrow> loader_error + (('k \<times> 'e) list option \<times> ('k, 'e) all_etype_loader)" where
  "next_data rand self =
     (case next_data_loop (map fst (dataset self)) self True [] of
        Inl e \<Rightarrow> Inl e
      | Inr (end, ret, self') \<Rightarrow>
          if end then Inr (None, self')
          else (case new_ret_loop rand self' ret [] of
                  Inl e \<Rightarrow> Inl e
                | Inr new_ret \<Rightarrow> Inr (Some new_ret, self')))"

subsection \<open>Notions used to state the loader's properties\<close>

text \<open>
  The total number of target edges; the number of batches an edge type with \<open>c\<close> edges and
  per-type batch size \<open>bs\<close> yields on its own (what the loop of \<^verbatim>\<open>_reinit_dataset\<close> computes
  for it, written with the ceiling).
\<close>

definition total_edges_of :: "('k \<times> 'e list) list \<Rightarrow> int" where
  "total_edges_of eids = sum_list (map (\<lambda>(key, val). int (length val)) eids)"

definition type_expected_idxs :: "bool \<Rightarrow> int \<Rightarrow> nat \<Rightarrow> int" where
  "type_expected_idxs dl bs c =
     (if dl then int c div bs else \<lceil>real_of_int (int c) / real_of_int bs\<rceil>)"

text \<open>
  The exhaustion condition of an edge type: the two conditions under which
  \<^verbatim>\<open>_next_data_etype\<close> returns \<^verbatim>\<open>None\<close>.  \<open>etype_end_pos\<close> and \<open>etype_batch\<close> are the
  \<^verbatim>\<open>end_pos\<close> and the edges it returns otherwise, and \<open>advance\<close> is its effect on the state.
\<close>

definition exhausted :: "('k, 'e) all_etype_loader \<Rightarrow> 'k \<Rightarrow> bool" where
  "exhausted self etype =
     (case (current_pos self etype, map_of (dataset self) etype, bs_per_type self etype) of
        (Some pos, Some eids, Some bs) \<Rightarrow>
          pos = int (length eids) \<or> (pos + bs > int (length eids) \<and> drop_last self)
      | _ \<Rightarrow> False)"

definition etype_end_pos :: "('k, 'e) all_etype_loader \<Rightarrow> 'k \<Rightarrow> int" where
  "etype_end_pos self etype =
     (case (current_pos self etype, map_of (dataset self) etype, bs_per_type self etype) of
        (Some pos, Some eids, Some bs) \<Rightarrow> min (pos + bs) (int (length eids))
      | _ \<Rightarrow> 0)"

definition etype_batch :: "('k, 'e) all_etype_loader \<Rightarrow> 'k \<Rightarrow> 'e list" where
  "etype_batch self etype =
     (case (current_pos self etype, map_of (dataset self) etype, map_of (data_idx self) etype) of
        (Some pos, Some eids, Some idxs) \<Rightarrow>
          map (\<lambda>i. eids ! i) (py_slice idxs pos (etype_end_pos self etype))
      | _ \<Rightarrow> [])"

definition advance :: "('k, 'e) all_etype_loader \<Rightarrow> 'k \<Rightarrow> ('k, 'e) all_etype_loader" where
  "advance self etype =
     (if exhausted self etype then self
      else self\<lparr>current_pos := (current_pos self)(etype \<mapsto> etype_end_pos self etype)\<rparr>)"

text \<open>
  What one entry \<^verbatim>\<open>(etype, eids)\<close> of \<^verbatim>\<open>ret\<close> adds to the minibatch, and what an edge type
  adds to the minibatch built in a given state.
\<close>

definition expand_entry ::
  "('k \<Rightarrow> nat) \<Rightarrow> ('k \<times> 'e list) list \<Rightarrow> 'k \<times> 'e list option \<Rightarrow> ('k \<times> 'e) list" where
  "expand_entry rand ds rel_t =
     (case snd rel_t of
        None \<Rightarrow> (case map_of ds (fst rel_t) of
                   Some eids \<Rightarrow> [(fst rel_t, eids ! (rand (fst rel_t) mod length eids))]
                 | None \<Rightarrow> [])
      | Some eids \<Rightarrow> map (\<lambda>data. (fst rel_t, data)) eids)"

definition contribution ::
  "('k \<Rightarrow> nat) \<Rightarrow> ('k, 'e) all_etype_loader \<Rightarrow> 'k \<Rightarrow> ('k \<times> 'e) list" where
  "contribution rand self etype =
     expand_entry rand (dataset self)
       (etype, if exhausted self etype then None else Some (etype_batch self etype))"

text \<open>
  The invariant of a loader: for every edge type of the dataset, the four dicts have an
  entry, the index list has the length of the edge list and holds positions of it, the
  per-type batch size is positive, the position is within the edge list, and the type has
  at least one edge.
\<close>

definition type_ok :: "('k, 'e) all_etype_loader \<Rightarrow> 'k \<Rightarrow> bool" where
  "type_ok self etype =
     (\<exists>pos eids bs idxs.
        current_pos self etype = Some pos \<and> map_of (dataset self) etype = Some eids \<and>
        bs_per_type self etype = Some bs \<and> map_of (data_idx self) etype = Some idxs \<and>
        length idxs = length eids \<and> (\<forall>i \<in> set idxs. i < length eids) \<and>
        1 \<le> bs \<and> 0 \<le> pos \<and> pos \<le> int (length eids) \<and> eids \<noteq> [])"

definition loader_inv :: "('k, 'e) all_etype_loader \<Rightarrow> bool" where
  "loader_inv self =
     (distinct (map fst (dataset self)) \<and> (\<forall>etype \<in> fst ` set (dataset self). type_ok self etype))"

text \<open>
  The states a loader goes through: built by the constructor from a dict and a positive batch
  size, then any sequence of \<^verbatim>\<open>__iter__\<close> (each with some outcome of the shuffles) and
  \<^verbatim>\<open>_next_data\<close> (each with some random draws).
\<close>

inductive reachable :: "('k, 'e) all_etype_loader \<Rightarrow> bool" where
  constructed:
    "distinct (map fst eids) \<Longrightarrow> 1 \<le> B \<Longrightarrow>
     AllEtypeDistEdgeDataLoader eids B sh dl = Inr self \<Longrightarrow> reachable self"
| iter:
    "reachable self \<Longrightarrow>
     \<forall>(k, idxs) \<in> set (data_idx self). mset (randperm k) = mset [0..<length idxs] \<Longrightarrow>
     reachable (loader_iter randperm self)"
| step:
    "reachable self \<Longrightarrow> next_data rand self = Inr (batch, self') \<Longrightarrow> reachable self'"

text \<open>
  One call of \<^verbatim>\<open>_next_data\<close> moves the position of every edge type once, in the order of the
  dict.
\<close>

definition advance_all :: "('k, 'e) all_etype_loader \<Rightarrow> ('k, 'e) all_etype_loader" where
  "advance_all self = foldl advance self (map fst (dataset self))"

text \<open>
  \<^verbatim>\<open>expected_idxs\<close> is the one \<^verbatim>\<open>_reinit_dataset\<close> computes from the dict and the per-type
  batch sizes.
\<close>

definition sized :: "('k, 'e) all_etype_loader \<Rightarrow> bool" where
  "sized self =
     (expected_idxs self =
        Max (insert 0 ((\<lambda>(t, c). type_expected_idxs (drop_last self) (the (bs_per_type self t))
                                   (length c)) ` set (dataset self))))"

text \<open>
  The position of an edge type with \<open>c\<close> edges and per-type batch size \<open>bs\<close> after \<open>k\<close> calls of
  \<^verbatim>\<open>_next_data_etype\<close> since the start of an epoch.
\<close>

definition pos_after :: "bool \<Rightarrow> int \<Rightarrow> nat \<Rightarrow> nat \<Rightarrow> int" where
  "pos_after dl bs c k =
     (if dl then min (int k) (int c div bs) * bs else min (int k * bs) (int c))"

text \<open>
  The start of an epoch: every position is 0, as the constructor and \<^verbatim>\<open>__iter__\<close> leave it.
\<close>

definition at_start :: "('k, 'e) all_etype_loader \<Rightarrow> bool" where
  "at_start self = (\<forall>t \<in> fst ` set (dataset self). current_pos self t = Some 0)"

section \<open>The edge, link-prediction and node dataloaders\<close>

text \<open>
  File \<^verbatim>\<open>python/graphstorm/dataloading/dataloading.py\<close>.  A canonical edge type is a triple of
  source node type, relation name and destination node type.  Of the dataset
  (\<^verbatim>\<open>GSgnnData\<close>) the loaders read the graph's canonical edge types (\<^verbatim>\<open>g.canonical_etypes\<close>),
  its node types (\<^verbatim>\<open>g.ntypes\<close>), the names of the edge data of every edge type
  (\<^verbatim>\<open>g.edges[etype].data\<close>) and \<^verbatim>\<open>has_node_feats\<close>.
\<close>

type_synonym ('nt, 'rt) etype = "'nt \<times> 'rt \<times> 'nt"

record ('nt, 'rt) gs_data =
  canonical_etypes :: "('nt, 'rt) etype list"
  ntypes :: "'nt list"
  edge_data_names :: "('nt, 'rt) etype \<Rightarrow> string list"
  has_node_feats :: "'nt \<Rightarrow> bool"

text \<open>
  Every failure of a constructor is an \<^verbatim>\<open>assert\<close>: the exception is \<^verbatim>\<open>AssertionError\<close>, told
  apart by the assertion that failed (with the value its message is formatted with).
\<close>

datatype ('nt, 'rt) assertion =
    Fanout_not_sampling
  | Cannot_construct_features "'nt set"
  | Sampled_etypes_empty
  | Reversed_etype_not_provided
  | Etype_not_in_graph "('nt, 'rt) etype"
  | Ntype_not_in_graph 'nt

datatype ('nt, 'rt) py_exception = AssertionError "('nt, 'rt) assertion"

datatype stop_iteration = StopIteration


subsection \<open>The feature-reconstruction sampler \<open>_ReconstructedNeighborSampler\<close>\<close>

text \<open>
  The object keeps \<^verbatim>\<open>_subg_etypes\<close> and the dict \<^verbatim>\<open>_fanout\<close> over the canonical edge types.
\<close>

record ('nt, 'rt) reconstructed_sampler =
  subg_etypes :: "('nt, 'rt) etype list"
  rs_fanout :: "('nt, 'rt) etype \<rightharpoonup> int"

text \<open>
  The body of the inner loop of \<^verbatim>\<open>__init__\<close>: \<^verbatim>\<open>etype[2] == dst_ntype and
  dataset.has_node_feats(etype[0])\<close> appends the edge type and adds the node type.
\<close>

definition collect_etype ::
  "('nt, 'rt) gs_data \<Rightarrow> 'nt \<Rightarrow> ('nt, 'rt) etype list \<times> 'nt set \<Rightarrow> ('nt, 'rt) etype
     \<Rightarrow> ('nt, 'rt) etype list \<times> 'nt set" where
  "collect_etype gsdata dst_ntype acc etype =
     (if snd (snd etype) = dst_ntype \<and> has_node_feats gsdata (fst etype)
      then (fst acc @ [etype], insert dst_ntype (snd acc))
      else acc)"

definition collect_etypes ::
  "('nt, 'rt) gs_data \<Rightarrow> 'nt list \<Rightarrow> ('nt, 'rt) etype list \<times> 'nt set" where
  "collect_etypes gsdata constructed_embed_ntypes =
     foldl (\<lambda>acc dst_ntype. foldl (collect_etype gsdata dst_ntype) acc (canonical_etypes gsdata))
           ([], {}) constructed_embed_ntypes"

definition ReconstructedNeighborSampler ::
  "('nt, 'rt) gs_data \<Rightarrow> 'nt list \<Rightarrow> int
     \<Rightarrow> ('nt, 'rt) py_exception + ('nt, 'rt) reconstructed_sampler" where
  "ReconstructedNeighborSampler gsdata constructed_embed_ntypes fanout =
     (if \<not> (fanout > 0 \<or> fanout = - 1) then Inl (AssertionError Fanout_not_sampling)
      else
        let etypes = canonical_etypes gsdata;
            (subg, target_ntypes) = collect_etypes gsdata constructed_embed_ntypes;
            remain_ntypes = set constructed_embed_ntypes - target_ntypes
        in if remain_ntypes \<noteq> {}
           then Inl (AssertionError (Cannot_construct_features remain_ntypes))
           else
             let fanout_dict =
                   foldl (\<lambda>d etype. d(etype \<mapsto> (if etype \<in> set subg then fanout else 0)))
                         Map.empty etypes
             in if \<not> (length subg > 0) then Inl (AssertionError Sampled_etypes_empty)
                else Inr \<lparr>subg_etypes = subg, rs_fanout = fanout_dict\<rparr>)"

text \<open>
  \<^verbatim>\<open>sample\<close> calls the graph store: \<^verbatim>\<open>sample_neighbors\<close>, \<^verbatim>\<open>dgl.to_block\<close> and the source
  node IDs of the block.  These operations of the graph library are parameters.
\<close>

record ('nt, 'rt, 'nodes, 'subg, 'block) graph_ops =
  sample_neighbors :: "'nodes \<Rightarrow> (('nt, 'rt) etype \<rightharpoonup> int) \<Rightarrow> 'subg"
  to_block :: "'subg \<Rightarrow> 'nodes \<Rightarrow> 'block"
  srcnodes_nid :: "'block \<Rightarrow> 'nodes"

definition sample ::
  "('nt, 'rt, 'nodes, 'subg, 'block) graph_ops \<Rightarrow> ('nt, 'rt) reconstructed_sampler \<Rightarrow> 'nodes
     \<Rightarrow> 'block \<times> 'nodes" where
  "sample g self seeds =
     (let subg = sample_neighbors g seeds (rs_fanout self);
          block = to_block g subg seeds;
          input_nodes = srcnodes_nid g block
      in (block, input_nodes))"


subsection \<open>The loaders\<close>

text \<open>
  The distributed loader of the graph library (\<^verbatim>\<open>DistEdgeDataLoader\<close>,
  \<^verbatim>\<open>DistNodeDataLoader\<close>) is outside the repository.  It is kept as the arguments it was built
  with, together with the minibatches it has still to yield in the current epoch:
  \<^verbatim>\<open>__iter__\<close> starts an epoch, whose minibatches are given from outside, and \<^verbatim>\<open>__next__\<close>
  takes the first one or raises \<^verbatim>\<open>StopIteration\<close>.
\<close>

datatype negative_sampler = Uniform int | GlobalUniform int

record ('k, 'i, 'f, 'rmap, 'b) dist_loader =
  dl_target_idxs :: "('k \<times> 'i list) list"
  dl_fanout :: 'f
  dl_mask :: "string option"
  dl_batch_size :: int
  dl_negative_sampler :: "negative_sampler option"
  dl_shuffle :: bool
  dl_drop_last :: bool
  dl_exclude :: "string option"
  dl_reverse_etypes :: "'rmap option"
  dl_pending :: "'b list"

definition dl_iter :: "'b list \<Rightarrow> ('k, 'i, 'f, 'rmap, 'b) dist_loader \<Rightarrow> ('k, 'i, 'f, 'rmap, 'b) dist_loader" where
  "dl_iter epoch dl = dl\<lparr>dl_pending := epoch\<rparr>"

definition dl_next ::
  "('k, 'i, 'f, 'rmap, 'b) dist_loader \<Rightarrow> stop_iteration + ('b \<times> ('k, 'i, 'f, 'rmap, 'b) dist_loader)" where
  "dl_next dl =
     (case dl_pending dl of
        [] \<Rightarrow> Inl StopIteration
      | b # rest \<Rightarrow> Inr (b, dl\<lparr>dl_pending := rest\<rparr>))"

text \<open>
  The attributes the three loader classes share: the dataset, the target index
  (\<^verbatim>\<open>_target_eidx\<close> or \<^verbatim>\<open>_target_idx\<close>), the fanout, the feature-reconstruction sampler and the
  distributed loader.  The target index is the dict the caller passed, the same object the
  distributed loader is given: an assignment to one of its entries is seen through both.
\<close>

record ('nt, 'rt, 'k, 'i, 'f, 'rmap, 'b) gs_loader =
  ld_data :: "('nt, 'rt) gs_data"
  ld_target_idx :: "('k \<times> 'i list) list"
  ld_fanout :: 'f
  ld_construct_feat_sampler :: "('nt, 'rt) reconstructed_sampler option"
  ld_dataloader :: "('k, 'i, 'f, 'rmap, 'b) dist_loader"

text \<open>
  The loop of \<^verbatim>\<open>GSgnnEdgeDataLoader.__init__\<close> that builds \<^verbatim>\<open>target_etypes\<close>:
  \<^verbatim>\<open>for e in target_etypes\<close> runs over the list while the body appends to it, so the types
  appended are visited in their turn.  \<open>i\<close> is the position of the iterator.  The reverse map
  is a dict, read with \<^verbatim>\<open>in\<close> and \<^verbatim>\<open>[]\<close>.
\<close>

function target_etypes_loop :: "('et \<times> 'et) list \<Rightarrow> 'et list \<Rightarrow> nat \<Rightarrow> 'et list" where
  "target_etypes_loop reverse_edge_types_map target_etypes i =
     (if i < length target_etypes
      then (let e = target_etypes ! i in
            case map_of reverse_edge_types_map e of
              Some r \<Rightarrow>
                if r \<notin> set target_etypes
                then target_etypes_loop reverse_edge_types_map (target_etypes @ [r]) (i + 1)
                else target_etypes_loop reverse_edge_types_map target_etypes (i + 1)
            | None \<Rightarrow> target_etypes_loop reverse_edge_types_map target_etypes (i + 1))
      else target_etypes)"
  by pat_completeness auto
termination
proof (relation "measure (\<lambda>(rmap, tes, i). card (snd ` set rmap - set tes) + (length tes - i))")
  show "wf (measure (\<lambda>(rmap, tes, i). card (snd ` set rmap - set tes) + (length tes - i)))"
    by simp
next
  fix rmap :: "('et \<times> 'et) list" and tes :: "'et list" and i :: nat and e r
  assume i: "i < length tes" and e: "e = tes ! i" and r: "map_of rmap e = Some r"
    and new: "r \<notin> set tes"
  from r have "r \<in> snd ` set rmap" by (force dest: map_of_SomeD)
  with new have mem: "r \<in> snd ` set rmap - set tes" by simp
  have fin: "finite (snd ` set rmap - set tes)" by simp
  have eq: "snd ` set rmap - set (tes @ [r]) = (snd ` set rmap - set tes) - {r}" by auto
  have "card ((snd ` set rmap - set tes) - {r}) < card (snd ` set rmap - set tes)"
    using fin mem by (rule card_Diff1_less)
  then have "card (snd ` set rmap - set (tes @ [r])) < card (snd ` set rmap - set tes)"
    by (simp only: eq)
  then show "((rmap, tes @ [r], i + 1), (rmap, tes, i))
      \<in> measure (\<lambda>(rmap, tes, i). card (snd ` set rmap - set tes) + (length tes - i))"
    using i by simp
next
  fix rmap :: "('et \<times> 'et) list" and tes :: "'et list" and i :: nat and e r
  assume "i < length tes"
  then show "((rmap, tes, i + 1), (rmap, tes, i))
      \<in> measure (\<lambda>(rmap, tes, i). card (snd ` set rmap - set tes) + (length tes - i))"
    by simp
next
  fix rmap :: "('et \<times> 'et) list" and tes :: "'et list" and i :: nat and e
  assume "i < length tes"
  then show "((rmap, tes, i + 1), (rmap, tes, i))
      \<in> measure (\<lambda>(rmap, tes, i). card (snd ` set rmap - set tes) + (length tes - i))"
    by simp
qed

text \<open>\<^verbatim>\<open>target_etypes = list(target_idx.keys())\<close> followed by the loop.\<close>

definition remove_target_etypes :: "('et \<times> 'et) list \<Rightarrow> 'et list \<Rightarrow> 'et list" where
  "remove_target_etypes reverse_edge_types_map target_keys =
     target_etypes_loop reverse_edge_types_map target_keys 0"

text \<open>
  The loop \<^verbatim>\<open>for etype in target_idx: assert etype in dataset.g.canonical_etypes\<close> of the
  edge and link-prediction loaders, and its counterpart on node types in the node loader.
\<close>

fun assert_etypes_in_graph ::
  "('nt, 'rt) etype list \<Rightarrow> ('nt, 'rt) etype list \<Rightarrow> ('nt, 'rt) py_exception + unit" where
  "assert_etypes_in_graph [] cetypes = Inr ()"
| "assert_etypes_in_graph (etype # rest) cetypes =
     (if etype \<in> set cetypes then assert_etypes_in_graph rest cetypes
      else Inl (AssertionError (Etype_not_in_graph etype)))"

fun assert_ntypes_in_graph :: "'nt list \<Rightarrow> 'nt list \<Rightarrow> ('nt, 'rt) py_exception + unit" where
  "assert_ntypes_in_graph [] gntypes = Inr ()"
| "assert_ntypes_in_graph (ntype # rest) gntypes =
     (if ntype \<in> set gntypes then assert_ntypes_in_graph rest gntypes
      else Inl (AssertionError (Ntype_not_in_graph ntype)))"

text \<open>
  \<^verbatim>\<open>_ReconstructedNeighborSampler(...) if len(construct_feat_ntype) > 0 else None\<close>, after
  \<^verbatim>\<open>construct_feat_ntype = []\<close> for \<^verbatim>\<open>None\<close>: the argument is a list, empty by default.
\<close>

definition make_construct_feat_sampler ::
  "('nt, 'rt) gs_data \<Rightarrow> 'nt list \<Rightarrow> int
     \<Rightarrow> ('nt, 'rt) py_exception + ('nt, 'rt) reconstructed_sampler option" where
  "make_construct_feat_sampler gsdata construct_feat_ntype construct_feat_fanout =
     (if length construct_feat_ntype > 0
      then (case ReconstructedNeighborSampler gsdata construct_feat_ntype construct_feat_fanout of
              Inl e \<Rightarrow> Inl e
            | Inr s \<Rightarrow> Inr (Some s))
      else Inr None)"

text \<open>
  Modelled from the spec: \<^verbatim>\<open>trim_data\<close> of \<^verbatim>\<open>graphstorm/dataloading/utils.py\<close> is not among
  the sources.  The spec says that for training tasks a target ID list is trimmed to a
  length evenly divisible by the number of distributed workers: the list is cut at its end,
  to the longest such length.  \<open>world_size\<close> is the number of workers.
\<close>

definition trim_data :: "nat \<Rightarrow> 'i list \<Rightarrow> 'i list" where
  "trim_data world_size nids = take (length nids - length nids mod world_size) nids"

text \<open>
  \<^verbatim>\<open>GSgnnEdgeDataLoader\<close>.  \<^verbatim>\<open>modify_fanout_for_target_etype\<close> (of \<^verbatim>\<open>utils.py\<close>, not among
  the sources) is a parameter: it receives the graph, the fanout and \<^verbatim>\<open>target_etypes\<close>.
  \<^verbatim>\<open>_prepare_dataloader\<close> builds the distributed loader and does not touch the target index.
\<close>

definition edge_prepare_dataloader ::
  "('et \<times> 'i list) list \<Rightarrow> 'f \<Rightarrow> int \<Rightarrow> bool \<Rightarrow> 'rmap option \<Rightarrow> bool
     \<Rightarrow> ('et, 'i, 'f, 'rmap, 'b) dist_loader" where
  "edge_prepare_dataloader target_idxs fanout bsz exclude_training_targets
       reverse_edge_types_map train_task =
     \<lparr>dl_target_idxs = target_idxs, dl_fanout = fanout, dl_mask = None, dl_batch_size = bsz,
      dl_negative_sampler = None, dl_shuffle = train_task, dl_drop_last = False,
      dl_exclude = (if exclude_training_targets then Some ''reverse_types'' else None),
      dl_reverse_etypes = (if exclude_training_targets then reverse_edge_types_map else None),
      dl_pending = []\<rparr>"

definition GSgnnEdgeDataLoader ::
  "(('nt, 'rt) gs_data \<Rightarrow> 'f \<Rightarrow> ('nt, 'rt) etype list \<Rightarrow> 'f) \<Rightarrow>
   ('nt, 'rt) gs_data \<Rightarrow> (('nt, 'rt) etype \<times> 'i list) list \<Rightarrow> 'f \<Rightarrow> int \<Rightarrow> bool \<Rightarrow>
   (('nt, 'rt) etype \<times> ('nt, 'rt) etype) list option \<Rightarrow> bool \<Rightarrow> bool \<Rightarrow> 'nt list \<Rightarrow> int
     \<Rightarrow> ('nt, 'rt) py_exception +
        ('nt, 'rt, ('nt, 'rt) etype, 'i, 'f, (('nt, 'rt) etype \<times> ('nt, 'rt) etype) list, 'b) gs_loader" where
  "GSgnnEdgeDataLoader modify_fanout_for_target_etype gsdata target_idx fanout bsz train_task
       reverse_edge_types_map remove_target_edge_type exclude_training_targets
       construct_feat_ntype construct_feat_fanout =
     (case (if remove_target_edge_type
            then (case reverse_edge_types_map of
                    None \<Rightarrow> Inl (AssertionError Reversed_etype_not_provided)
                  | Some rmap \<Rightarrow>
                      Inr (modify_fanout_for_target_etype gsdata fanout
                             (remove_target_etypes rmap (map fst target_idx))))
            else Inr fanout) of
        Inl e \<Rightarrow> Inl e
      | Inr edge_fanout_lis \<Rightarrow>
          (case assert_etypes_in_graph (map fst target_idx) (canonical_etypes gsdata) of
             Inl e \<Rightarrow> Inl e
           | Inr _ \<Rightarrow>
               (case make_construct_feat_sampler gsdata construct_feat_ntype
                       construct_feat_fanout of
                  Inl e \<Rightarrow> Inl e
                | Inr sampler \<Rightarrow>
                    Inr \<lparr>ld_data = gsdata, ld_target_idx = target_idx, ld_fanout = fanout,
                         ld_construct_feat_sampler = sampler,
                         ld_dataloader =
                           edge_prepare_dataloader target_idx edge_fanout_lis bsz
                             exclude_training_targets reverse_edge_types_map train_task\<rparr>)))"

text \<open>
  \<^verbatim>\<open>GSgnnLinkPredictionDataLoader\<close>.  \<^verbatim>\<open>_prepare_dataloader\<close> chooses the sampler's mask,
  and for a training task assigns \<^verbatim>\<open>target_idxs[etype] = trim_data(target_idxs[etype], device)\<close>
  for every key of the dict; it returns the distributed loader, and the dict it has
  assigned to is the loader's target index.  The target index is a dict, as the loop over
  its keys in \<^verbatim>\<open>__init__\<close> requires.
\<close>

definition lp_prepare_dataloader ::
  "nat \<Rightarrow> ('nt, 'rt) gs_data \<Rightarrow> (('nt, 'rt) etype \<times> 'i list) list \<Rightarrow> 'f \<Rightarrow> int \<Rightarrow> int \<Rightarrow> bool
     \<Rightarrow> bool \<Rightarrow> 'rmap option \<Rightarrow> string option
     \<Rightarrow> (('nt, 'rt) etype \<times> 'i list) list \<times> (('nt, 'rt) etype, 'i, 'f, 'rmap, 'b) dist_loader" where
  "lp_prepare_dataloader world_size g target_idxs fanout num_negative_edges bsz train_task
       exclude_training_targets reverse_edge_types_map edge_mask_for_gnn_embeddings =
     (let mask = (case edge_mask_for_gnn_embeddings of
                    None \<Rightarrow> None
                  | Some m \<Rightarrow>
                      if \<exists>etype \<in> set (canonical_etypes g). m \<in> set (edge_data_names g etype)
                      then Some m else None);
          target_idxs' = (if train_task
                          then map (\<lambda>(etype, ids). (etype, trim_data world_size ids)) target_idxs
                          else target_idxs)
      in (target_idxs',
          \<lparr>dl_target_idxs = target_idxs', dl_fanout = fanout, dl_mask = mask,
           dl_batch_size = bsz, dl_negative_sampler = Some (Uniform num_negative_edges),
           dl_shuffle = train_task, dl_drop_last = False,
           dl_exclude = (if exclude_training_targets then Some ''reverse_types'' else None),
           dl_reverse_etypes = (if exclude_training_targets then reverse_edge_types_map else None),
           dl_pending = []\<rparr>))"

definition GSgnnLinkPredictionDataLoader ::
  "nat \<Rightarrow> ('nt, 'rt) gs_data \<Rightarrow> (('nt, 'rt) etype \<times> 'i list) list \<Rightarrow> 'f \<Rightarrow> int \<Rightarrow> int \<Rightarrow> bool \<Rightarrow>
   'rmap option \<Rightarrow> bool \<Rightarrow> string option \<Rightarrow> 'nt list \<Rightarrow> int
     \<Rightarrow> ('nt, 'rt) py_exception +
        ('nt, 'rt, ('nt, 'rt) etype, 'i, 'f, 'rmap, 'b) gs_loader" where
  "GSgnnLinkPredictionDataLoader world_size gsdata target_idx fanout bsz num_negative_edges
       train_task reverse_edge_types_map exclude_training_targets edge_mask_for_gnn_embeddings
       construct_feat_ntype construct_feat_fanout =
     (case assert_etypes_in_graph (map fst target_idx) (canonical_etypes gsdata) of
        Inl e \<Rightarrow> Inl e
      | Inr _ \<Rightarrow>
          (case make_construct_feat_sampler gsdata construct_feat_ntype construct_feat_fanout of
             Inl e \<Rightarrow> Inl e
           | Inr sampler \<Rightarrow>
               let (target_idx', loader) =
                     lp_prepare_dataloader world_size gsdata target_idx fanout num_negative_edges
                       bsz train_task exclude_training_targets reverse_edge_types_map
                       edge_mask_for_gnn_embeddings
               in Inr \<lparr>ld_data = gsdata, ld_target_idx = target_idx', ld_fanout = fanout,
                       ld_construct_feat_sampler = sampler, ld_dataloader = loader\<rparr>))"

text \<open>
  \<^verbatim>\<open>GSgnnLinkPredictionTestDataLoader.__init__\<close> with \<^verbatim>\<open>_reinit_dataset\<close>: the check of the
  edge types, then the positions and the list of remaining edge types.
\<close>

record ('nt, 'rt, 'i) lp_test_loader =
  tl_data :: "('nt, 'rt) gs_data"
  tl_batch_size :: int
  tl_target_idx :: "(('nt, 'rt) etype \<times> 'i list) list"
  tl_negative_sampler :: negative_sampler
  tl_current_pos :: "('nt, 'rt) etype \<rightharpoonup> int"
  tl_remaining_etypes :: "('nt, 'rt) etype list"

definition GSgnnLinkPredictionTestDataLoader ::
  "('nt, 'rt) gs_data \<Rightarrow> (('nt, 'rt) etype \<times> 'i list) list \<Rightarrow> int \<Rightarrow> int
     \<Rightarrow> ('nt, 'rt) py_exception + ('nt, 'rt, 'i) lp_test_loader" where
  "GSgnnLinkPredictionTestDataLoader gsdata target_idx bsz num_negative_edges =
     (case assert_etypes_in_graph (map fst target_idx) (canonical_etypes gsdata) of
        Inl e \<Rightarrow> Inl e
      | Inr _ \<Rightarrow>
          Inr \<lparr>tl_data = gsdata, tl_batch_size = bsz, tl_target_idx = target_idx,
               tl_negative_sampler = GlobalUniform num_negative_edges,
               tl_current_pos = map_of (map (\<lambda>(etype, _). (etype, 0)) target_idx),
               tl_remaining_etypes = map fst target_idx\<rparr>)"

text \<open>
  \<^verbatim>\<open>GSgnnNodeDataLoader\<close>: the sampler is built first, then the node types are checked,
  then \<^verbatim>\<open>_prepare_dataloader\<close> trims for a training task.
\<close>

definition node_prepare_dataloader ::
  "nat \<Rightarrow> ('nt \<times> 'i list) list \<Rightarrow> 'f \<Rightarrow> int \<Rightarrow> bool
     \<Rightarrow> ('nt \<times> 'i list) list \<times> ('nt, 'i, 'f, 'rmap, 'b) dist_loader" where
  "node_prepare_dataloader world_size target_idx fanout bsz train_task =
     (let target_idx' = (if train_task
                         then map (\<lambda>(ntype, ids). (ntype, trim_data world_size ids)) target_idx
                         else target_idx)
      in (target_idx',
          \<lparr>dl_target_idxs = target_idx', dl_fanout = fanout, dl_mask = None,
           dl_batch_size = bsz, dl_negative_sampler = None, dl_shuffle = train_task,
           dl_drop_last = False, dl_exclude = None, dl_reverse_etypes = None,
           dl_pending = []\<rparr>))"

definition GSgnnNodeDataLoader ::
  "nat \<Rightarrow> ('nt, 'rt) gs_data \<Rightarrow> ('nt \<times> 'i list) list \<Rightarrow> 'f \<Rightarrow> int \<Rightarrow> bool \<Rightarrow> 'nt list \<Rightarrow> int
     \<Rightarrow> ('nt, 'rt) py_exception + ('nt, 'rt, 'nt, 'i, 'f, 'rmap, 'b) gs_loader" where
  "GSgnnNodeDataLoader world_size gsdata target_idx fanout bsz train_task
       construct_feat_ntype construct_feat_fanout =
     (case make_construct_feat_sampler gsdata construct_feat_ntype construct_feat_fanout of
        Inl e \<Rightarrow> Inl e
      | Inr sampler \<Rightarrow>
          (case assert_ntypes_in_graph (map fst target_idx) (ntypes gsdata) of
             Inl e \<Rightarrow> Inl e
           | Inr _ \<Rightarrow>
               let (target_idx', loader) =
                     node_prepare_dataloader world_size target_idx fanout bsz train_task
               in Inr \<lparr>ld_data = gsdata, ld_target_idx = target_idx', ld_fanout = fanout,
                       ld_construct_feat_sampler = sampler, ld_dataloader = loader\<rparr>))"

text \<open>
  \<^verbatim>\<open>__iter__\<close> restarts the distributed loader.  \<^verbatim>\<open>__next__\<close> of the edge loader and of the
  node loader takes a triple from it, \<^verbatim>\<open>__next__\<close> of the link-prediction loaders a
  quadruple; with a feature-reconstruction sampler and \<^verbatim>\<open>len(blocks) > 0\<close> it samples the
  extra hop from the input nodes and runs \<^verbatim>\<open>blocks.insert(0, block)\<close>.
\<close>

definition list_insert :: "nat \<Rightarrow> 'a \<Rightarrow> 'a list \<Rightarrow> 'a list" where
  "list_insert i x xs = take i xs @ [x] @ drop i xs"

definition loader_iter_epoch ::
  "'b list \<Rightarrow> ('nt, 'rt, 'k, 'i, 'f, 'rmap, 'b) gs_loader
     \<Rightarrow> ('nt, 'rt, 'k, 'i, 'f, 'rmap, 'b) gs_loader" where
  "loader_iter_epoch epoch self = self\<lparr>ld_dataloader := dl_iter epoch (ld_dataloader self)\<rparr>"

definition construct_feat ::
  "('nt, 'rt, 'nodes, 'subg, 'block) graph_ops \<Rightarrow> ('nt, 'rt) reconstructed_sampler option
     \<Rightarrow> 'nodes \<Rightarrow> 'block list \<Rightarrow> 'nodes \<times> 'block list" where
  "construct_feat g construct_feat_sampler input_nodes blocks =
     (case construct_feat_sampler of
        Some s \<Rightarrow>
          if length blocks > 0
          then (let (block, input_nodes') = sample g s input_nodes
                in (input_nodes', list_insert 0 block blocks))
          else (input_nodes, blocks)
      | None \<Rightarrow> (input_nodes, blocks))"

definition edge_loader_next ::
  "('nt, 'rt, 'nodes, 'subg, 'block) graph_ops \<Rightarrow>
   ('nt, 'rt, 'k, 'i, 'f, 'rmap, 'nodes \<times> 'g \<times> 'block list) gs_loader
     \<Rightarrow> stop_iteration +
        (('nodes \<times> 'g \<times> 'block list) \<times>
         ('nt, 'rt, 'k, 'i, 'f, 'rmap, 'nodes \<times> 'g \<times> 'block list) gs_loader)" where
  "edge_loader_next g self =
     (case dl_next (ld_dataloader self) of
        Inl e \<Rightarrow> Inl e
      | Inr ((input_nodes, batch_graph, blocks), dl') \<Rightarrow>
          let (input_nodes', blocks') =
                construct_feat g (ld_construct_feat_sampler self) input_nodes blocks
          in Inr ((input_nodes', batch_graph, blocks'), self\<lparr>ld_dataloader := dl'\<rparr>))"

definition lp_loader_next ::
  "('nt, 'rt, 'nodes, 'subg, 'block) graph_ops \<Rightarrow>
   ('nt, 'rt, 'k, 'i, 'f, 'rmap, 'nodes \<times> 'g \<times> 'g \<times> 'block list) gs_loader
     \<Rightarrow> stop_iteration +
        (('nodes \<times> 'g \<times> 'g \<times> 'block list) \<times>
         ('nt, 'rt, 'k, 'i, 'f, 'rmap, 'nodes \<times> 'g \<times> 'g \<times> 'block list) gs_loader)" where
  "lp_loader_next g self =
     (case dl_next (ld_dataloader self) of
        Inl e \<Rightarrow> Inl e
      | Inr ((input_nodes, pos_graph, neg_graph, blocks), dl') \<Rightarrow>
          let (input_nodes', blocks') =
                construct_feat g (ld_construct_feat_sampler self) input_nodes blocks
          in Inr ((input_nodes', pos_graph, neg_graph, blocks'), self\<lparr>ld_dataloader := dl'\<rparr>))"

definition node_loader_next ::
  "('nt, 'rt, 'nodes, 'subg, 'block) graph_ops \<Rightarrow>
   ('nt, 'rt, 'k, 'i, 'f, 'rmap, 'nodes \<times> 'seeds \<times> 'block list) gs_loader
     \<Rightarrow> stop_iteration +
        (('nodes \<times> 'seeds \<times> 'block list) \<times>
         ('nt, 'rt, 'k, 'i, 'f, 'rmap, 'nodes \<times> 'seeds \<times> 'block list) gs_loader)" where
  "node_loader_next g self =
     (case dl_next (ld_dataloader self) of
        Inl e \<Rightarrow> Inl e
      | Inr ((input_nodes, seeds, blocks), dl') \<Rightarrow>
          let (input_nodes', blocks') =
                construct_feat g (ld_construct_feat_sampler self) input_nodes blocks
          in Inr ((input_nodes', seeds, blocks'), self\<lparr>ld_dataloader := dl'\<rparr>))"

subsection \<open>Notions used to state the loaders' properties\<close>

text \<open>The reverse map as a relation: an edge type and its registered reverse.\<close>

definition reverse_edges :: "('et \<times> 'et) list \<Rightarrow> ('et \<times> 'et) set" where
  "reverse_edges reverse_edge_types_map = {(e, r). map_of reverse_edge_types_map e = Some r}"

text \<open>
  An incoming edge type of a requested node type whose source node type carries stored
  features.
\<close>

definition feature_bearing ::
  "('nt, 'rt) gs_data \<Rightarrow> 'nt list \<Rightarrow> ('nt, 'rt) etype \<Rightarrow> bool" where
  "feature_bearing gsdata constructed_embed_ntypes etype =
     (snd (snd etype) \<in> set constructed_embed_ntypes \<and> has_node_feats gsdata (fst etype))"

text \<open>
  The requested node types that have no incoming edge type whose source node type carries
  stored features.
\<close>

definition unreconstructable :: "('nt, 'rt) gs_data \<Rightarrow> 'nt list \<Rightarrow> 'nt set" where
  "unreconstructable gsdata ntys =
     {nt \<in> set ntys. \<not> (\<exists>e \<in> set (canonical_etypes gsdata).
                            snd (snd e) = nt \<and> has_node_feats gsdata (fst e))}"


section \<open>The config converter\<close>

text \<open>
  The converter (\<^verbatim>\<open>GConstructConfigConverter\<close> of
  \<^verbatim>\<open>graphstorm_processing/config/config_conversion.py\<close>) is not among the sources; only its
  tests (\<^verbatim>\<open>graphstorm-processing/tests/test_converter.py\<close>) are.  The declarations it reads
  and the records it returns follow the spec's schemas and the tests' fixtures.
\<close>

datatype converter_error = ValueError

text \<open>
  Modelled from the spec: a feature declaration \<^verbatim>\<open>{feature_col, feature_name, transform?}\<close>,
  where \<^verbatim>\<open>feature_col\<close> is a non-empty list of columns (its first element and the rest) and
  \<^verbatim>\<open>transform\<close>, when present, carries the name of the transform; a label declaration
  \<^verbatim>\<open>{label_col, task_type, split_pct: [train, val, test]}\<close>.
\<close>

record gc_feature =
  feature_col :: "string \<times> string list"
  feature_name :: string
  transform_name :: "string option"

record gc_label =
  label_col :: string
  task_type :: string
  split_pct :: "rat \<times> rat \<times> rat"

text \<open>
  Modelled from the spec: the \<^verbatim>\<open>files\<close> entry of a declaration is one path or a list of
  paths; a node declaration is \<^verbatim>\<open>{node_type, format: {name, separator?}, files, node_id_col,
  features?, labels?}\<close> and an edge declaration is \<^verbatim>\<open>{relation: [src_type, rel_name,
  dst_type], format, files, source_id_col, dest_id_col, features?, labels?}\<close>.
\<close>

datatype gc_files = Path string | Paths "string list"

record gc_node =
  gc_node_type :: string
  gc_format_name :: string
  gc_separator :: "string option"
  gc_files :: gc_files
  gc_node_id_col :: string
  gc_features :: "gc_feature list option"
  gc_labels :: "gc_label list option"

record gc_edge =
  gce_relation :: "string \<times> string \<times> string"
  gce_format_name :: string
  gce_separator :: "string option"
  gce_files :: gc_files
  gce_source_id_col :: string
  gce_dest_id_col :: string
  gce_features :: "gc_feature list option"
  gce_labels :: "gc_label list option"

text \<open>
  Modelled from the spec: the normalized records, with the fields the spec's data model and
  the tests name: a feature \<^verbatim>\<open>{column, transform: {name}, name}\<close>, a label \<^verbatim>\<open>{column, type,
  split_rate: {train, val, test}}\<close>, a node record and an edge record.
\<close>

record gsp_feature =
  gsp_column :: string
  gsp_transform :: string
  gsp_name :: string

record gsp_label =
  gsp_label_column :: string
  gsp_type :: string
  gsp_train :: rat
  gsp_val :: rat
  gsp_test :: rat

record node_config =
  nc_node_type :: string
  nc_file_format :: string
  nc_files :: "string list"
  nc_separator :: "string option"
  nc_column :: string
  nc_features :: "gsp_feature list option"
  nc_labels :: "gsp_label list option"

record edge_config =
  ec_source_col :: string
  ec_source_type :: string
  ec_dest_col :: string
  ec_dest_type :: string
  ec_file_format :: string
  ec_files :: "string list"
  ec_separator :: "string option"
  ec_relation :: string
  ec_features :: "gsp_feature list option"
  ec_labels :: "gsp_label list option"

text \<open>
  Modelled from the spec: the converter rejects, with \<^verbatim>\<open>ValueError\<close>, any file path
  containing wildcard characters.  The wildcard characters are \<^verbatim>\<open>*\<close> and \<^verbatim>\<open>?\<close>, the two the
  tests exercise.  One path is read as the list holding it.
\<close>

definition has_wildcard :: "string \<Rightarrow> bool" where
  "has_wildcard file_name = (CHR ''*'' \<in> set file_name \<or> CHR ''?'' \<in> set file_name)"

definition convert_files :: "gc_files \<Rightarrow> converter_error + string list" where
  "convert_files fs =
     (let file_list = (case fs of Path p \<Rightarrow> [p] | Paths ps \<Rightarrow> ps)
      in if \<exists>file_name \<in> set file_list. has_wildcard file_name then Inl ValueError
         else Inr file_list)"

text \<open>
  Modelled from the spec: the converter rejects, with \<^verbatim>\<open>ValueError\<close>, any feature transform
  other than the pass-through transform, whose name is \<^verbatim>\<open>no-op\<close>; a feature without a
  transform gets the pass-through transform; the column is the first of \<^verbatim>\<open>feature_col\<close>.
\<close>

definition convert_feature :: "gc_feature \<Rightarrow> converter_error + gsp_feature" where
  "convert_feature feat =
     (case transform_name feat of
        None \<Rightarrow> Inr \<lparr>gsp_column = fst (feature_col feat), gsp_transform = ''no-op'',
                     gsp_name = feature_name feat\<rparr>
      | Some t \<Rightarrow>
          if t = ''no-op''
          then Inr \<lparr>gsp_column = fst (feature_col feat), gsp_transform = ''no-op'',
                    gsp_name = feature_name feat\<rparr>
          else Inl ValueError)"

fun convert_features :: "gc_feature list \<Rightarrow> converter_error + gsp_feature list" where
  "convert_features [] = Inr []"
| "convert_features (feat # rest) =
     (case convert_feature feat of
        Inl e \<Rightarrow> Inl e
      | Inr f \<Rightarrow> (case convert_features rest of Inl e \<Rightarrow> Inl e | Inr fs \<Rightarrow> Inr (f # fs)))"

definition convert_optional_features ::
  "gc_feature list option \<Rightarrow> converter_error + gsp_feature list option" where
  "convert_optional_features feats =
     (case feats of
        None \<Rightarrow> Inr None
      | Some fs \<Rightarrow> (case convert_features fs of Inl e \<Rightarrow> Inl e | Inr gs \<Rightarrow> Inr (Some gs)))"

text \<open>
  Modelled from the spec: a label carries a train/val/test split ratio derived one-to-one
  from the three-element percentage list.
\<close>

definition convert_label :: "gc_label \<Rightarrow> gsp_label" where
  "convert_label lab =
     \<lparr>gsp_label_column = label_col lab, gsp_type = task_type lab,
      gsp_train = fst (split_pct lab), gsp_val = fst (snd (split_pct lab)),
      gsp_test = snd (snd (split_pct lab))\<rparr>"

text \<open>
  Modelled from the spec: \<^verbatim>\<open>convert_nodes\<close> and \<^verbatim>\<open>convert_edges\<close> accept sequences of raw
  declarations and return sequences of normalized records, or fail on the first declaration
  that is rejected.
\<close>

definition convert_node :: "gc_node \<Rightarrow> converter_error + node_config" where
  "convert_node n =
     (case convert_files (gc_files n) of
        Inl e \<Rightarrow> Inl e
      | Inr node_files \<Rightarrow>
          (case convert_optional_features (gc_features n) of
             Inl e \<Rightarrow> Inl e
           | Inr feats \<Rightarrow>
               Inr \<lparr>nc_node_type = gc_node_type n, nc_file_format = gc_format_name n,
                    nc_files = node_files, nc_separator = gc_separator n,
                    nc_column = gc_node_id_col n, nc_features = feats,
                    nc_labels = map_option (map convert_label) (gc_labels n)\<rparr>))"

fun convert_nodes :: "gc_node list \<Rightarrow> converter_error + node_config list" where
  "convert_nodes [] = Inr []"
| "convert_nodes (n # rest) =
     (case convert_node n of
        Inl e \<Rightarrow> Inl e
      | Inr c \<Rightarrow> (case convert_nodes rest of Inl e \<Rightarrow> Inl e | Inr cs \<Rightarrow> Inr (c # cs)))"

definition convert_edge :: "gc_edge \<Rightarrow> converter_error + edge_config" where
  "convert_edge e =
     (case convert_files (gce_files e) of
        Inl err \<Rightarrow> Inl err
      | Inr edge_files \<Rightarrow>
          (case convert_optional_features (gce_features e) of
             Inl err \<Rightarrow> Inl err
           | Inr feats \<Rightarrow>
               Inr \<lparr>ec_source_col = gce_source_id_col e,
                    ec_source_type = fst (gce_relation e),
                    ec_dest_col = gce_dest_id_col e,
                    ec_dest_type = snd (snd (gce_relation e)),
                    ec_file_format = gce_format_name e, ec_files = edge_files,
                    ec_separator = gce_separator e,
                    ec_relation = fst (snd (gce_relation e)), ec_features = feats,
                    ec_labels = map_option (map convert_label) (gce_labels e)\<rparr>))"

fun convert_edges :: "gc_edge list \<Rightarrow> converter_error + edge_config list" where
  "convert_edges [] = Inr []"
| "convert_edges (e # rest) =
     (case convert_edge e of
        Inl err \<Rightarrow> Inl err
      | Inr c \<Rightarrow> (case convert_edges rest of Inl err \<Rightarrow> Inl err | Inr cs \<Rightarrow> Inr (c # cs)))"

text \<open>
  A declaration's paths, and what makes the converter reject a declaration: a wildcard in
  one of its paths, or a feature with a transform other than the pass-through one.
\<close>

definition file_list_of :: "gc_files \<Rightarrow> string list" where
  "file_list_of fs = (case fs of Path p \<Rightarrow> [p] | Paths ps \<Rightarrow> ps)"

definition unsupported_transform :: "gc_feature list option \<Rightarrow> bool" where
  "unsupported_transform feats =
     (\<exists>feat \<in> set (case feats of None \<Rightarrow> [] | Some fs \<Rightarrow> fs).
        \<exists>t. transform_name feat = Some t \<and> t \<noteq> ''no-op'')"

definition wildcard_files :: "gc_files \<Rightarrow> bool" where
  "wildcard_files fs = (\<exists>file_name \<in> set (file_list_of fs). has_wildcard file_name)"


section \<open>Example inputs\<close>

text \<open>
  A small citation graph in the manner of the tests' fixtures: authors write papers, papers
  cite papers, and only papers carry stored features.
\<close>

definition acm_data :: "(string, string) gs_data" where
  "acm_data =
     \<lparr>canonical_etypes = [(''author'', ''writing'', ''paper''), (''paper'', ''cites'', ''paper''),
                          (''paper'', ''rev-writing'', ''author'')],
      ntypes = [''author'', ''paper''],
      edge_data_names = (\<lambda>_. [''train_mask'']),
      has_node_feats = (\<lambda>ntype. ntype = ''paper'')\<rparr>"

text \<open>
  Graph operations on lists of node IDs: the sampled neighbours of a node \<open>n\<close> are the node
  \<open>n + 100\<close>, a block is the list of its source nodes.
\<close>

definition demo_ops :: "(string, string, nat list, nat list, nat list) graph_ops" where
  "demo_ops = \<lparr>sample_neighbors = (\<lambda>seeds fanout. map (\<lambda>n. n + 100) seeds),
               to_block = (\<lambda>subg seeds. seeds @ subg),
               srcnodes_nid = (\<lambda>block. block)\<rparr>"

text \<open>A loader over that graph with a given sampler and given minibatches still to yield.\<close>

definition demo_loader ::
  "(string, string) reconstructed_sampler option \<Rightarrow> 'b list
     \<Rightarrow> (string, string, (string, string) etype, nat, int list, unit, 'b) gs_loader" where
  "demo_loader sampler pending =
     \<lparr>ld_data = acm_data, ld_target_idx = [((''author'', ''writing'', ''paper''), [0, 1, 2])],
      ld_fanout = [10, 5], ld_construct_feat_sampler = sampler,
      ld_dataloader =
        (edge_prepare_dataloader [((''author'', ''writing'', ''paper''), [0, 1, 2])] [10, 5] 2
           False None True)\<lparr>dl_pending := pending\<rparr>\<rparr>"

text \<open>The node declaration of the tests' fixture.\<close>

definition author_node :: gc_node where
  "author_node =
     \<lparr>gc_node_type = ''author'', gc_format_name = ''parquet'', gc_separator = Some '','',
      gc_files = Path ''/tmp/acm_raw/nodes/author.parquet'', gc_node_id_col = ''node_id'',
      gc_features = None, gc_labels = None\<rparr>"

definition writing_edge :: gc_edge where
  "writing_edge =
     \<lparr>gce_relation = (''author'', ''writing'', ''paper''), gce_format_name = ''parquet'',
      gce_separator = None,
      gce_files = Path ''/tmp/acm_raw/edges/author_writing_paper.parquet'',
      gce_source_id_col = ''~from'', gce_dest_id_col = ''~to'',
      gce_features = None, gce_labels = None\<rparr>"


section \<open>Properties of \<open>remove_test_mask\<close>\<close>

lemma str_contains_sublist: "str_contains sub s = sublist sub s"
  by (induction s) (auto simp: sublist_Cons_right)

lemma remove_loop_lookup:
  "map_of (foldl (remove_test_mask_step data) acc ks) name =
     (if name \<in> set ks \<and> \<not> sublist ''test_mask'' name \<and> map_of data name \<noteq> None
      then map_of data name else map_of acc name)"
proof (induction ks arbitrary: acc)
  case Nil
  then show ?case by simp
next
  case (Cons k ks)
  show ?case
    unfolding foldl_Cons Cons.IH
    by (auto simp: remove_test_mask_step_def str_contains_sublist update_conv'
             split: option.splits)
qed

lemma remove_test_mask_lookup:
  "map_of (remove_test_mask data) name =
     (if sublist ''test_mask'' name then None else map_of data name)"
proof (cases "map_of data name")
  case None
  then show ?thesis
    unfolding remove_test_mask_def remove_loop_lookup by simp
next
  case (Some v)
  then have "name \<in> set (map fst data)"
    by (metis map_of_eq_None_iff option.distinct(1) set_map)
  with Some show ?thesis
    unfolding remove_test_mask_def remove_loop_lookup by simp
qed

lemma remove_loop_filter:
  "distinct (map fst ps) \<Longrightarrow> set ps \<subseteq> set data \<Longrightarrow> distinct (map fst data) \<Longrightarrow>
   fst ` set acc \<inter> fst ` set ps = {} \<Longrightarrow>
   foldl (remove_test_mask_step data) acc (map fst ps) =
     acc @ filter (\<lambda>(name, v). \<not> sublist ''test_mask'' name) ps"
proof (induction ps arbitrary: acc)
  case Nil
  then show ?case by simp
next
  case (Cons p ps)
  obtain k v where p: "p = (k, v)" by (cases p)
  from Cons.prems p have look: "map_of data k = Some v" by simp
  from Cons.prems p have fresh: "k \<notin> fst ` set acc" by auto
  have upd: "AList.update k v acc = acc @ [(k, v)]"
    using fresh by (induction acc) auto
  show ?case
  proof (cases "sublist ''test_mask'' k")
    case True
    then have "remove_test_mask_step data acc k = acc"
      by (simp add: remove_test_mask_step_def str_contains_sublist)
    moreover have "fst ` set acc \<inter> fst ` set ps = {}" using Cons.prems by auto
    ultimately show ?thesis using Cons.IH[of acc] Cons.prems p True by simp
  next
    case False
    then have st: "remove_test_mask_step data acc k = acc @ [(k, v)]"
      by (simp add: remove_test_mask_step_def str_contains_sublist look upd)
    have "fst ` set (acc @ [(k, v)]) \<inter> fst ` set ps = {}"
      using Cons.prems p by (auto simp: image_iff)
    then show ?thesis using Cons.IH[of "acc @ [(k, v)]"] Cons.prems p False st by simp
  qed
qed

lemma remove_test_mask_filter:
  "distinct (map fst data) \<Longrightarrow>
   remove_test_mask data = filter (\<lambda>(name, v). \<not> sublist ''test_mask'' name) data"
  unfolding remove_test_mask_def
  using remove_loop_filter[of data data "[]"] by simp

lemma train_val_not_test:
  "\<not> sublist ''test_mask'' ''train_mask''" "\<not> sublist ''test_mask'' ''val_mask''"
  by (simp_all add: str_contains_sublist[symmetric])

text \<open>
  Claim C10.  For every input mapping, \<open>remove_test_mask\<close> returns a mapping that holds
  exactly the entries of the input whose name does not contain \<^verbatim>\<open>test_mask\<close> as a substring
  (at any position, not only as a suffix), each with its original value.  The entries named
  \<^verbatim>\<open>train_mask\<close> and \<^verbatim>\<open>val_mask\<close> are therefore kept, and every name of the form
  \<open>pre @ ''test_mask'' @ post\<close> is removed.  For a dict (distinct keys) the result is the
  input filtered, in the input's order.
\<close>

theorem remove_test_mask_spec:
  "map_of (remove_test_mask data) name =
     (if sublist ''test_mask'' name then None else map_of data name) \<and>
   map_of (remove_test_mask data) ''train_mask'' = map_of data ''train_mask'' \<and>
   map_of (remove_test_mask data) ''val_mask'' = map_of data ''val_mask'' \<and>
   map_of (remove_test_mask data) (pre @ ''test_mask'' @ post) = None \<and>
   (distinct (map fst data) \<longrightarrow>
      remove_test_mask data = filter (\<lambda>(name, v). \<not> sublist ''test_mask'' name) data)"
proof -
  have "map_of (remove_test_mask data) ''train_mask'' = map_of data ''train_mask''"
    using train_val_not_test(1) by (simp only: remove_test_mask_lookup if_False)
  moreover have "map_of (remove_test_mask data) ''val_mask'' = map_of data ''val_mask''"
    using train_val_not_test(2) by (simp only: remove_test_mask_lookup if_False)
  moreover have "sublist ''test_mask'' (pre @ ''test_mask'' @ post)"
    unfolding sublist_def by blast
  then have "map_of (remove_test_mask data) (pre @ ''test_mask'' @ post) = None"
    by (simp only: remove_test_mask_lookup if_True)
  ultimately show ?thesis
    using remove_test_mask_lookup[of data name] remove_test_mask_filter[of data] by blast
qed

theorem remove_test_mask_spec_witness:
  "distinct (map fst [(''train_mask'', 1::nat), (''test_mask'', 2), (''my_test_mask2'', 3),
                      (''val_mask'', 4)]) \<and>
   remove_test_mask [(''train_mask'', 1::nat), (''test_mask'', 2), (''my_test_mask2'', 3),
                     (''val_mask'', 4)]
     = [(''train_mask'', 1), (''val_mask'', 4)] \<and>
   map_of (remove_test_mask [(''train_mask'', 1::nat), (''test_mask'', 2),
                             (''my_test_mask2'', 3), (''val_mask'', 4)]) ''my_test_mask2'' = None"
  using remove_test_mask_spec
          [of "[(''train_mask'', 1::nat), (''test_mask'', 2), (''my_test_mask2'', 3),
                (''val_mask'', 4)]" "''val_mask''" "''my_''" "''2''"]
  by (simp add: str_contains_sublist[symmetric])

section \<open>Properties of the per-edge-type balanced loader\<close>

subsection \<open>The float quotient\<close>

lemma round_half_even_le:
  assumes "0 < q" and "p \<le> N * q"
  shows "round_half_even p q \<le> N"
proof -
  have dm: "p div q * q + p mod q = p" by (rule div_mult_mod_eq)
  have m0: "0 \<le> p mod q" and m1: "p mod q < q" using assms(1) by simp_all
  have le: "p div q \<le> N"
  proof (rule ccontr)
    assume "\<not> p div q \<le> N"
    then have "N + 1 \<le> p div q" by simp
    then have "(N + 1) * q \<le> p div q * q" using assms(1) by (intro mult_right_mono) simp_all
    moreover have "(N + 1) * q = N * q + q" by (simp add: algebra_simps)
    ultimately show False using dm m0 assms by linarith
  qed
  show ?thesis
  proof (cases "p div q = N")
    case True
    with dm assms(2) m0 have "p mod q = 0" by simp
    with True assms(1) show ?thesis by (simp add: round_half_even_def Let_def)
  next
    case False
    with le have "p div q + 1 \<le> N" by simp
    with le show ?thesis by (simp add: round_half_even_def Let_def)
  qed
qed

lemma round_half_even_gt:
  assumes "0 < q" and "(2 * M + 1) * q < 2 * p"
  shows "M < round_half_even p q"
proof -
  have dm: "p div q * q + p mod q = p" by (rule div_mult_mod_eq)
  have m0: "0 \<le> p mod q" and m1: "p mod q < q" using assms(1) by simp_all
  have ex: "(2 * M + 1) * q = 2 * (M * q) + q" by (simp add: algebra_simps)
  have ge: "M \<le> p div q"
  proof (rule ccontr)
    assume "\<not> M \<le> p div q"
    then have "p div q + 1 \<le> M" by simp
    then have "(p div q + 1) * q \<le> M * q" using assms(1) by (intro mult_right_mono) simp_all
    moreover have "(p div q + 1) * q = p div q * q + q" by (simp add: algebra_simps)
    ultimately show False using dm m1 assms ex by linarith
  qed
  show ?thesis
  proof (cases "p div q = M")
    case True
    with dm assms(2) ex have "q < 2 * (p mod q)" by simp
    with True show ?thesis by (simp add: round_half_even_def Let_def)
  next
    case False
    with ge have "M < p div q" by simp
    then show ?thesis by (simp add: round_half_even_def Let_def)
  qed
qed

lemma round_half_even_nonneg:
  assumes "0 < q" and "0 \<le> p"
  shows "0 \<le> round_half_even p q"
proof -
  have "0 \<le> p div q" using assms by (simp add: pos_imp_zdiv_nonneg_iff)
  then show ?thesis by (simp add: round_half_even_def Let_def)
qed

lemma round_half_even_le_Suc:
  assumes "0 < q" and "0 \<le> p"
  shows "round_half_even p q \<le> p + 1"
proof -
  have "p div q \<le> p div 1" using assms by (intro zdiv_mono2) simp_all
  then show ?thesis by (simp add: round_half_even_def Let_def)
qed

lemma quotient_exponent_bounds:
  assumes "0 < p" and "0 < q"
  shows "q * 2 ^ nat (quotient_exponent p q) \<le> p * 2 ^ nat (- quotient_exponent p q)"
    and "p * 2 ^ nat (- (quotient_exponent p q + 1)) < q * 2 ^ nat (quotient_exponent p q + 1)"
proof -
  define i where "i = nat (bitlen p - 1)"
  define j where "j = nat (bitlen q - 1)"
  have bp: "1 \<le> bitlen p" "1 \<le> bitlen q"
    using assms bitlen_eq_zero_iff[of p] bitlen_eq_zero_iff[of q] bitlen_nonneg[of p] bitlen_nonneg[of q]
    by linarith+
  have np: "nat (bitlen p) = Suc i" "nat (bitlen q) = Suc j"
    using bp by (simp_all add: i_def j_def)
  have pb: "2 ^ i \<le> p" "p < 2 ^ Suc i" and qb: "2 ^ j \<le> q" "q < 2 ^ Suc j"
    using bitlen_bounds[OF assms(1)] bitlen_bounds[OF assms(2)] unfolding np i_def j_def by simp_all
  have d: "bitlen p - bitlen q = int i - int j"
    using bp by (simp add: i_def j_def)
  let ?d = "int i - int j"
  have up: "p * 2 ^ nat (- (?d + 1)) < q * 2 ^ nat (?d + 1)"
  proof (cases "j \<le> i")
    case True
    then have e: "nat (- (?d + 1)) = 0" "nat (?d + 1) = Suc (i - j)" by simp_all
    have "p < 2 ^ Suc i" by (rule pb)
    also have "(2::int) ^ Suc i = 2 ^ j * 2 ^ Suc (i - j)"
      using True by (simp add: power_add[symmetric])
    also have "\<dots> \<le> q * 2 ^ Suc (i - j)" using qb(1) by (intro mult_right_mono) simp_all
    finally show ?thesis unfolding e by simp
  next
    case False
    then have e: "nat (- (?d + 1)) = j - i - 1" "nat (?d + 1) = 0" by simp_all
    have "p * 2 ^ (j - i - 1) < 2 ^ Suc i * 2 ^ (j - i - 1)"
      using pb(2) by (intro mult_strict_right_mono) simp_all
    also have "(2::int) ^ Suc i * 2 ^ (j - i - 1) = 2 ^ j"
      using False by (simp add: power_add[symmetric] del: power_Suc)
    also have "\<dots> \<le> q" by (rule qb)
    finally show ?thesis unfolding e by simp
  qed
  have lo: "q * 2 ^ nat (?d - 1) \<le> p * 2 ^ nat (- (?d - 1))"
  proof (cases "j < i")
    case True
    then have e: "nat (?d - 1) = i - j - 1" "nat (- (?d - 1)) = 0" by simp_all
    have "q * 2 ^ (i - j - 1) \<le> 2 ^ Suc j * 2 ^ (i - j - 1)"
      using qb(2) by (intro mult_right_mono) simp_all
    also have "(2::int) ^ Suc j * 2 ^ (i - j - 1) = 2 ^ i"
      using True by (simp add: power_add[symmetric] del: power_Suc)
    also have "\<dots> \<le> p" by (rule pb)
    finally show ?thesis unfolding e by simp
  next
    case False
    then have e: "nat (?d - 1) = 0" "nat (- (?d - 1)) = Suc (j - i)" by simp_all
    have "q \<le> 2 ^ Suc j" using qb(2) by simp
    also have "(2::int) ^ Suc j = 2 ^ i * 2 ^ Suc (j - i)"
      using False by (simp add: power_add[symmetric])
    also have "\<dots> \<le> p * 2 ^ Suc (j - i)" using pb(1) by (intro mult_right_mono) simp_all
    finally show ?thesis unfolding e by simp
  qed
  show "q * 2 ^ nat (quotient_exponent p q) \<le> p * 2 ^ nat (- quotient_exponent p q)"
    using lo unfolding quotient_exponent_def d Let_def by (simp add: algebra_simps)
  show "p * 2 ^ nat (- (quotient_exponent p q + 1)) < q * 2 ^ nat (quotient_exponent p q + 1)"
    using up unfolding quotient_exponent_def d Let_def by (auto simp: algebra_simps not_le)
qed

lemma ceil_truediv_by_zero: "ceil_truediv a 0 = Inl ZeroDivisionError"
  by (simp add: ceil_truediv_def int_truediv_def)

lemma ceil_truediv_zero: "b \<noteq> 0 \<Longrightarrow> ceil_truediv 0 b = Inr 0"
  by (simp add: ceil_truediv_def int_truediv_def math_ceil_def)

lemma ceil_truediv_Inr_nonzero: "ceil_truediv a b = Inr n \<Longrightarrow> b \<noteq> 0"
  by (auto simp: ceil_truediv_by_zero)

lemma math_ceil_nonneg: "0 \<le> m \<Longrightarrow> 0 \<le> math_ceil (m, e)"
proof -
  assume m: "0 \<le> m"
  have "(- m) div 2 ^ nat (- e) \<le> 0"
    using m by (simp add: div_nonpos_pos_le0)
  then show ?thesis using m by (simp add: math_ceil_def)
qed

lemma ceil_truediv_nonneg:
  assumes "0 \<le> a" and "0 < b" and "ceil_truediv a b = Inr n"
  shows "0 \<le> n"
proof (cases "a = 0")
  case True
  with assms show ?thesis by (simp add: ceil_truediv_zero)
next
  case False
  with assms(1) have a: "0 < a" by simp
  define e where "e = max (quotient_exponent a b - 52) (- 1074)"
  define m where "m = round_half_even (a * 2 ^ nat (- e)) (b * 2 ^ nat e)"
  have "0 \<le> m"
    unfolding m_def using a assms(2) by (intro round_half_even_nonneg) simp_all
  moreover from assms(3) a assms(2) have "n = math_ceil (m, e)"
    by (auto simp: ceil_truediv_def int_truediv_def Let_def e_def m_def split: if_splits)
  ultimately show ?thesis by (simp add: math_ceil_nonneg)
qed

lemma neg_div_neg_unique:
  fixes m q R :: int
  assumes "0 < q" and "(R - 1) * q < m" and "m \<le> R * q"
  shows "- ((- m) div q) = R"
proof -
  have "\<lceil>real_of_int m / real_of_int q\<rceil> = R"
  proof (rule ceiling_unique)
    have "real_of_int ((R - 1) * q) < real_of_int m" using assms(2) by (simp only: of_int_less_iff)
    then show "of_int R - 1 < real_of_int m / real_of_int q"
      using assms(1) by (simp add: pos_less_divide_eq)
    have "real_of_int m \<le> real_of_int (R * q)" using assms(3) by (simp only: of_int_le_iff)
    then show "real_of_int m / real_of_int q \<le> of_int R"
      using assms(1) by (simp add: pos_divide_le_eq)
  qed
  then show ?thesis by (simp add: ceiling_divide_eq_div)
qed

lemma ceil_truediv_exact:
  assumes "0 \<le> a" and "a < 2 ^ 53" and "0 < b" and "b < 2 ^ 53"
  shows "ceil_truediv a b = Inr (- ((- a) div b))"
proof (cases "a = 0")
  case True
  with assms(3) show ?thesis by (simp add: ceil_truediv_zero)
next
  case False
  with assms(1) have a: "0 < a" by simp
  define L where "L = quotient_exponent a b"
  note B = quotient_exponent_bounds[OF a assms(3), folded L_def]
  have Lhi: "L \<le> 52"
  proof (rule ccontr)
    assume "\<not> L \<le> 52"
    then have L: "53 \<le> L" by simp
    then have n: "nat (- L) = 0" and n53: "53 \<le> nat L" by simp_all
    have "(2::int) ^ 53 \<le> 2 ^ nat L" using n53 by (intro power_increasing) simp_all
    also have "\<dots> \<le> b * 2 ^ nat L" using assms(3) by (simp add: mult_le_cancel_right1)
    also have "\<dots> \<le> a" using B(1) by (simp add: n)
    finally show False using assms(2) by simp
  qed
  have Llo: "- 53 \<le> L"
  proof (rule ccontr)
    assume "\<not> - 53 \<le> L"
    then have L: "L \<le> - 54" by simp
    then have n: "nat (L + 1) = 0" and n53: "53 \<le> nat (- (L + 1))" by simp_all
    have "(2::int) ^ 53 \<le> 2 ^ nat (- (L + 1))" using n53 by (intro power_increasing) simp_all
    also have "\<dots> \<le> a * 2 ^ nat (- (L + 1))" using a by (simp add: mult_le_cancel_right1)
    also have "\<dots> < b" using B(2) by (simp add: n)
    finally show False using assms(4) by simp
  qed
  define k where "k = nat (52 - L)"
  define m where "m = round_half_even (a * 2 ^ k) b"
  define n where "n = - ((- a) div b)"
  have e: "max (L - 52) (- 1074) = L - 52" using Llo by simp
  have ne: "nat (L - 52) = 0" "nat (- (L - 52)) = k" using Lhi by (simp_all add: k_def)
  have k105: "k \<le> 105" using Llo by (simp add: k_def)
  have p2: "(0::int) < 2 ^ k" by simp
  have nb: "(n - 1) * b < a" "a \<le> n * b"
  proof -
    have c: "n = \<lceil>real_of_int a / real_of_int b\<rceil>"
      by (simp add: n_def ceiling_divide_eq_div)
    have "real_of_int n - 1 < real_of_int a / real_of_int b"
      unfolding c by linarith
    then have "real_of_int ((n - 1) * b) < real_of_int a"
      using assms(3) by (simp add: pos_less_divide_eq)
    then show "(n - 1) * b < a" by (simp only: of_int_less_iff)
    have "real_of_int a / real_of_int b \<le> real_of_int n"
      unfolding c by linarith
    then have "real_of_int a \<le> real_of_int (n * b)"
      using assms(3) by (simp add: pos_divide_le_eq)
    then show "a \<le> n * b" by (simp only: of_int_le_iff)
  qed
  have small: "b < 2 * 2 ^ k"
  proof (cases "0 \<le> L")
    case True
    then have n: "nat (- L) = 0" and kk: "Suc k + nat L = 53"
      using Lhi by (simp_all add: k_def)
    have "b * 2 ^ nat L \<le> a" using B(1) by (simp add: n)
    also have "a < 2 ^ 53" by (rule assms)
    also have "(2::int) ^ 53 = 2 ^ Suc k * 2 ^ nat L"
      unfolding power_add[symmetric] kk ..
    finally have "b < 2 ^ Suc k" by (simp add: mult_less_cancel_right)
    then show ?thesis by simp
  next
    case False
    then have "53 \<le> Suc k" by (simp add: k_def)
    then have "(2::int) ^ 53 \<le> 2 ^ Suc k" by (intro power_increasing) simp_all
    with assms(4) show ?thesis by simp
  qed
  have up: "m \<le> n * 2 ^ k"
    unfolding m_def
  proof (rule round_half_even_le[OF assms(3)])
    have "a * 2 ^ k \<le> n * b * 2 ^ k" using nb(2) by (intro mult_right_mono) simp_all
    then show "a * 2 ^ k \<le> n * 2 ^ k * b" by (simp add: mult_ac)
  qed
  have lo: "(n - 1) * 2 ^ k < m"
    unfolding m_def
  proof (rule round_half_even_gt[OF assms(3)])
    from nb(1) have "(n - 1) * b + 1 \<le> a" by simp
    then have "((n - 1) * b + 1) * 2 ^ k \<le> a * 2 ^ k" by (intro mult_right_mono) simp_all
    moreover have "((n - 1) * b + 1) * 2 ^ k = (n - 1) * 2 ^ k * b + 2 ^ k"
      by (simp add: algebra_simps)
    moreover have "(2 * ((n - 1) * 2 ^ k) + 1) * b = 2 * ((n - 1) * 2 ^ k * b) + b"
      by (simp add: algebra_simps)
    ultimately show "(2 * ((n - 1) * 2 ^ k) + 1) * b < 2 * (a * 2 ^ k)"
      using small by linarith
  qed
  have m0: "0 \<le> m"
    unfolding m_def using a assms(3) by (intro round_half_even_nonneg) simp_all
  have "a * 2 ^ k \<le> a * 2 ^ 105"
    using a k105 by (intro mult_left_mono power_increasing) simp_all
  also have "\<dots> < 2 ^ 53 * 2 ^ 105"
    using assms(2) by (intro mult_strict_right_mono) simp_all
  finally have "a * 2 ^ k < 2 ^ 158" by simp
  moreover have "m \<le> a * 2 ^ k + 1"
    unfolding m_def using a assms(3) by (intro round_half_even_le_Suc) simp_all
  ultimately have fin: "m < 2 ^ 1024" by simp
  have tr: "int_truediv a b = Inr (m, L - 52)"
    using a assms(3) fin
    by (simp add: int_truediv_def Let_def L_def[symmetric] e ne k_def[symmetric] m_def[symmetric])
  have "math_ceil (m, L - 52) = - ((- m) div 2 ^ k)"
    using Lhi by (cases "L = 52") (simp_all add: math_ceil_def k_def)
  also have "\<dots> = n" using p2 lo up by (rule neg_div_neg_unique)
  finally show ?thesis
    by (simp add: ceil_truediv_def tr n_def)
qed

text \<open>
  The same with the bounds written out, to evaluate the loader on a concrete input, and the
  equations that do so.
\<close>

lemma ceil_truediv_small:
  "0 \<le> a \<Longrightarrow> a < 9007199254740992 \<Longrightarrow> 0 < b \<Longrightarrow> b < 9007199254740992 \<Longrightarrow>
   ceil_truediv a b = Inr (- ((- a) div b))"
  by (rule ceil_truediv_exact) simp_all

lemmas loader_eval =
  AllEtypeDistEdgeDataLoader_def reinit_dataset_def ceil_truediv_small
  loader_iter_def next_data_def next_data_etype_def py_slice_def tensor_index_def
  rand_gen_def th_randint_def exhausted_def Let_def

subsection \<open>Construction\<close>

lemma ceiling_div_floor:
  "b \<noteq> 0 \<Longrightarrow>
   \<lceil>real_of_int a / real_of_int b\<rceil> = a div b + (if a mod b \<noteq> 0 then 1 else 0)"
  by (simp add: ceiling_divide_eq_div zdiv_zminus1_eq_if)

lemma ceiling_div_pos:
  assumes "0 < a" "0 < b"
  shows "1 \<le> \<lceil>real_of_int a / real_of_int b\<rceil>"
proof -
  have "0 < real_of_int a" "0 < real_of_int b" using assms by simp_all
  then have "0 < real_of_int a / real_of_int b" by (rule divide_pos_pos)
  then have "0 < \<lceil>real_of_int a / real_of_int b\<rceil>"
    by (simp only: less_ceiling_iff of_int_0)
  then show ?thesis by simp
qed

lemma reinit_loop_Inr:
  assumes "reinit_loop B dl T items bs0 mx0 = Inr (bs', mx')"
    and "distinct (map fst items)"
  shows "(\<forall>(k, idxs) \<in> set items.
            \<exists>bs. ceil_truediv (B * int (length idxs)) T = Inr bs \<and> bs \<noteq> 0 \<and> bs' k = Some bs) \<and>
         (\<forall>k. k \<notin> fst ` set items \<longrightarrow> bs' k = bs0 k) \<and>
         mx' = Max (insert mx0
                 ((\<lambda>(k, idxs). type_expected_idxs dl (the (bs' k)) (length idxs)) ` set items))"
  using assms
proof (induction items arbitrary: bs0 mx0)
  case Nil
  then show ?case by simp
next
  case (Cons p items)
  obtain k idxs where p: "p = (k, idxs)" by (cases p)
  from Cons.prems(1) p obtain bs where
    cd: "ceil_truediv (B * int (length idxs)) T = Inr bs" and bs: "bs \<noteq> 0"
    by (auto split: sum.splits if_splits)
  let ?e = "type_expected_idxs dl bs (length idxs)"
  let ?E = "\<lambda>(k, idxs). type_expected_idxs dl (the (bs' k)) (length idxs)"
  have e: "(let exp_idxs = int (length idxs) div bs
            in if \<not> dl \<and> int (length idxs) mod bs \<noteq> 0 then exp_idxs + 1 else exp_idxs) = ?e"
    using ceiling_div_floor[OF bs, of "int (length idxs)"]
    by (simp add: type_expected_idxs_def Let_def)
  from Cons.prems(1) p cd bs
  have rec: "reinit_loop B dl T items (bs0(k \<mapsto> bs)) (max mx0 ?e) = Inr (bs', mx')"
    using e by (simp add: Let_def)
  from Cons.prems(2) p have d: "distinct (map fst items)" and knot: "k \<notin> fst ` set items"
    by auto
  note IH = Cons.IH[OF rec d]
  from IH knot have bk: "bs' k = Some bs" by simp
  have m: "Max (insert (max mx0 ?e) (?E ` set items)) = Max (insert mx0 (?E ` set (p # items)))"
  proof -
    have "finite (?E ` set items)" by simp
    then have "Max (insert (max mx0 ?e) (?E ` set items))
                 = Max (insert mx0 (insert ?e (?E ` set items)))"
      by (cases "?E ` set items = {}") (simp_all add: max.assoc)
    then show ?thesis by (simp add: p bk)
  qed
  have hd: "\<exists>bs. ceil_truediv (B * int (length idxs)) T = Inr bs \<and> bs \<noteq> 0 \<and> bs' k = Some bs"
    using cd bs bk by blast
  have others: "\<forall>k'. k' \<notin> fst ` set (p # items) \<longrightarrow> bs' k' = bs0 k'"
    using IH by (auto simp: p)
  from IH hd others show ?case
    unfolding m by (simp add: p)
qed

lemma length_le_total:
  "(t, c) \<in> set eids \<Longrightarrow> int (length c) \<le> total_edges_of eids"
proof (induction eids)
  case Nil
  then show ?case by simp
next
  case (Cons p eids)
  have nn: "0 \<le> total_edges_of eids"
    unfolding total_edges_of_def by (rule sum_list_nonneg) auto
  obtain t' c' where p: "p = (t', c')" by (cases p)
  have s: "total_edges_of (p # eids) = int (length c') + total_edges_of eids"
    by (simp add: total_edges_of_def p)
  show ?case
  proof (cases "(t, c) = p")
    case True
    with p nn show ?thesis unfolding s by simp
  next
    case False
    with Cons have "int (length c) \<le> total_edges_of eids" by simp
    then show ?thesis unfolding s by simp
  qed
qed

lemma reinit_loop_succeeds:
  assumes "1 \<le> B" and "0 < T" and "B * T < 2 ^ 53"
    and "\<forall>(k, idxs) \<in> set items. idxs \<noteq> [] \<and> int (length idxs) \<le> T"
  shows "\<exists>r. reinit_loop B dl T items bs0 mx0 = Inr r"
  using assms(4)
proof (induction items arbitrary: bs0 mx0)
  case Nil
  then show ?case by simp
next
  case (Cons p items)
  obtain k idxs where p: "p = (k, idxs)" by (cases p)
  with Cons.prems have ne: "idxs \<noteq> []" and le: "int (length idxs) \<le> T" by simp_all
  have a0: "0 < B * int (length idxs)" using ne assms(1) by simp
  have "B * int (length idxs) \<le> B * T" using le assms(1) by (intro mult_left_mono) simp_all
  with assms(3) have a1: "B * int (length idxs) < 2 ^ 53" by simp
  have "1 * T \<le> B * T" using assms(1,2) by (intro mult_right_mono) simp_all
  with assms(3) have b1: "T < 2 ^ 53" by simp
  have cd: "ceil_truediv (B * int (length idxs)) T = Inr (- ((- (B * int (length idxs))) div T))"
    using a0 a1 assms(2) b1 by (intro ceil_truediv_exact) simp_all
  have eq: "\<lceil>real_of_int (B * int (length idxs)) / real_of_int T\<rceil>
              = - ((- (B * int (length idxs))) div T)"
    by (rule ceiling_divide_eq_div)
  have "1 \<le> \<lceil>real_of_int (B * int (length idxs)) / real_of_int T\<rceil>"
    using a0 assms(2) by (rule ceiling_div_pos)
  then have nz: "- ((- (B * int (length idxs))) div T) \<noteq> 0"
    unfolding eq by linarith
  from Cons.prems have "\<forall>(k, idxs) \<in> set items. idxs \<noteq> [] \<and> int (length idxs) \<le> T" by simp
  from Cons.IH[OF this] show ?case
    unfolding p reinit_loop.simps cd using nz by (simp add: Let_def)
qed

lemma total_edges_pos:
  "eids \<noteq> [] \<Longrightarrow> \<forall>(t, c) \<in> set eids. c \<noteq> [] \<Longrightarrow> 0 < total_edges_of eids"
proof (induction eids)
  case Nil
  then show ?case by simp
next
  case (Cons p eids)
  obtain t c where p: "p = (t, c)" by (cases p)
  have "0 \<le> total_edges_of eids"
    unfolding total_edges_of_def by (rule sum_list_nonneg) auto
  moreover have "0 < int (length c)" using Cons.prems p by simp
  ultimately have "0 < int (length c) + total_edges_of eids" by linarith
  then show ?case by (simp add: total_edges_of_def p)
qed

lemma reinit_dataset_Inr:
  assumes "reinit_dataset self = Inr self'" and "distinct (map fst (dataset self))"
  shows "dataset self' = dataset self \<and> drop_last self' = drop_last self \<and>
         shuffle self' = shuffle self \<and> batch_size self' = batch_size self \<and>
         data_idx self' = map (\<lambda>(key, val). (key, [0..<length val])) (dataset self) \<and>
         current_pos self' = map_of (map (\<lambda>(key, val). (key, 0)) (dataset self)) \<and>
         (\<forall>(t, c) \<in> set (dataset self).
            \<exists>bs. ceil_truediv (batch_size self * int (length c)) (total_edges_of (dataset self))
                   = Inr bs \<and> bs \<noteq> 0 \<and> bs_per_type self' t = Some bs) \<and>
         expected_idxs self' =
           Max (insert 0 ((\<lambda>(t, c). type_expected_idxs (drop_last self)
                                       (the (bs_per_type self' t)) (length c)) ` set (dataset self)))"
proof -
  let ?di = "map (\<lambda>(key, val). (key, [0..<length val])) (dataset self)"
  from assms(1) obtain bs mx where
    loop: "reinit_loop (batch_size self) (drop_last self) (total_edges_of (dataset self)) ?di Map.empty 0
             = Inr (bs, mx)"
    and self': "self' = self\<lparr>data_idx := ?di, bs_per_type := bs, expected_idxs := mx,
                   current_pos := map_of (map (\<lambda>(etype, _). (etype, 0)) ?di)\<rparr>"
    by (auto simp: reinit_dataset_def total_edges_of_def Let_def split: sum.splits)
  have fst: "map fst ?di = map fst (dataset self)" by (induction "dataset self") auto
  have d: "distinct (map fst ?di)" using assms(2) by (simp only: fst)
  note R = reinit_loop_Inr[OF loop d]
  have cp: "map (\<lambda>(etype, _). (etype, 0::int)) ?di = map (\<lambda>(key, val). (key, 0)) (dataset self)"
    by (induction "dataset self") auto
  have img: "(\<lambda>(k, idxs). type_expected_idxs (drop_last self) (the (bs k)) (length idxs)) ` set ?di
           = (\<lambda>(t, c). type_expected_idxs (drop_last self) (the (bs t)) (length c)) ` set (dataset self)"
    by (force simp: image_iff)
  have bsv: "\<forall>(t, c) \<in> set (dataset self).
            \<exists>b. ceil_truediv (batch_size self * int (length c)) (total_edges_of (dataset self))
                  = Inr b \<and> b \<noteq> 0 \<and> bs t = Some b"
    using R by fastforce
  have cur: "current_pos self' = map_of (map (\<lambda>(key, val). (key, 0)) (dataset self))"
    unfolding self' using cp by (simp del: map_map)
  have mx: "mx = Max (insert 0 ((\<lambda>(t, c). type_expected_idxs (drop_last self) (the (bs t))
                (length c)) ` set (dataset self)))"
    using R unfolding img by blast
  show ?thesis
    using bsv cur mx by (simp add: self')
qed

lemma AllEtype_succeeds:
  assumes "1 \<le> B" and "\<forall>(t, c) \<in> set eids. c \<noteq> []" and "B * total_edges_of eids < 2 ^ 53"
  shows "\<exists>self. AllEtypeDistEdgeDataLoader eids B sh dl = Inr self"
proof (cases "eids = []")
  case True
  then show ?thesis
    by (simp add: AllEtypeDistEdgeDataLoader_def reinit_dataset_def)
next
  case False
  then have T: "0 < total_edges_of eids" using assms(2) by (rule total_edges_pos)
  have "\<forall>(k, idxs) \<in> set (map (\<lambda>(key, val). (key, [0..<length val])) eids).
          idxs \<noteq> [] \<and> int (length idxs) \<le> total_edges_of eids"
    using assms(2) length_le_total[of _ _ eids] by auto
  from reinit_loop_succeeds[OF assms(1) T assms(3) this, of dl Map.empty 0]
  obtain r where "reinit_loop B dl (total_edges_of eids)
                    (map (\<lambda>(key, val). (key, [0..<length val])) eids) Map.empty 0 = Inr r"
    by blast
  then show ?thesis
    by (cases r)
       (simp add: AllEtypeDistEdgeDataLoader_def reinit_dataset_def total_edges_of_def)
qed

text \<open>
  Claim C2 (amended).  Let a loader be built with user batch size \<open>B \<ge> 1\<close> over a dict of
  target edges in which every edge type \<open>t\<close> has \<open>c\<^sub>t \<ge> 1\<close> edges, \<open>T\<close> being the sum of all
  \<open>c\<^sub>t\<close>, with \<open>B * T < 2 ^ 53\<close>, so that the float quotient \<open>B * c\<^sub>t / T\<close> has the ceiling of
  the exact quotient.  Construction succeeds; the per-type batch size of every type is
  \<open>\<lceil>B * c\<^sub>t / T\<rceil>\<close>, which is at least 1; and \<open>expected_idxs\<close> is the maximum over all types
  (and 0) of \<open>\<lceil>c\<^sub>t / bs\<^sub>t\<rceil>\<close> when \<open>drop_last\<close> is off, and of \<open>\<lfloor>c\<^sub>t / bs\<^sub>t\<rfloor>\<close> when
  \<open>drop_last\<close> is on.
\<close>

theorem all_etype_batch_sizes:
  assumes "distinct (map fst eids)" and "1 \<le> B" and "\<forall>(t, c) \<in> set eids. c \<noteq> []"
    and "B * total_edges_of eids < 2 ^ 53"
  shows "\<exists>self. AllEtypeDistEdgeDataLoader eids B sh dl = Inr self \<and>
           (\<forall>(t, c) \<in> set eids.
              bs_per_type self t =
                Some \<lceil>real_of_int (B * int (length c)) / real_of_int (total_edges_of eids)\<rceil> \<and>
              1 \<le> \<lceil>real_of_int (B * int (length c)) / real_of_int (total_edges_of eids)\<rceil>) \<and>
           expected_idxs self =
             Max (insert 0
               ((\<lambda>(t, c).
                   if dl
                   then int (length c) div
                          \<lceil>real_of_int (B * int (length c)) / real_of_int (total_edges_of eids)\<rceil>
                   else \<lceil>real_of_int (int (length c)) /
                           real_of_int \<lceil>real_of_int (B * int (length c)) /
                                         real_of_int (total_edges_of eids)\<rceil>\<rceil>) ` set eids))"
proof -
  let ?T = "total_edges_of eids"
  let ?bs = "\<lambda>c. \<lceil>real_of_int (B * int (length c)) / real_of_int ?T\<rceil>"
  from AllEtype_succeeds[OF assms(2,3,4)] obtain self where
    ok: "AllEtypeDistEdgeDataLoader eids B sh dl = Inr self" by blast
  let ?s0 = "\<lparr>dataset = eids, batch_size = B, shuffle = sh, drop_last = dl,
               data_idx = [], bs_per_type = Map.empty, expected_idxs = 0,
               current_pos = Map.empty, recv_idxs = 0, num_pending = 0\<rparr>"
  from ok have r: "reinit_dataset ?s0 = Inr self"
    by (simp add: AllEtypeDistEdgeDataLoader_def)
  have d: "distinct (map fst (dataset ?s0))" using assms(1) by simp
  note R = reinit_dataset_Inr[OF r d]
  have one: "bs_per_type self t = Some (?bs c) \<and> 1 \<le> ?bs c" if tc: "(t, c) \<in> set eids" for t c
  proof -
    from tc have "eids \<noteq> []" by auto
    then have T: "0 < ?T" using assms(3) by (rule total_edges_pos)
    from tc assms(3) have "c \<noteq> []" by auto
    then have a0: "0 < B * int (length c)" using assms(2) by simp
    have "int (length c) \<le> ?T" using tc by (rule length_le_total)
    then have "B * int (length c) \<le> B * ?T" using assms(2) by (intro mult_left_mono) simp_all
    with assms(4) have a1: "B * int (length c) < 2 ^ 53" by simp
    have "1 * ?T \<le> B * ?T" using assms(2) T by (intro mult_right_mono) simp_all
    with assms(4) have b1: "?T < 2 ^ 53" by simp
    have "ceil_truediv (B * int (length c)) ?T = Inr (- ((- (B * int (length c))) div ?T))"
      using a0 a1 T b1 by (intro ceil_truediv_exact) simp_all
    then have cd: "ceil_truediv (B * int (length c)) ?T = Inr (?bs c)"
      by (simp only: ceiling_divide_eq_div)
    from R tc obtain bs where
      "ceil_truediv (B * int (length c)) ?T = Inr bs" "bs_per_type self t = Some bs"
      by fastforce
    with cd have "bs_per_type self t = Some (?bs c)" by simp
    moreover have "1 \<le> ?bs c" using a0 T by (rule ceiling_div_pos)
    ultimately show ?thesis ..
  qed
  have "(\<lambda>(t, c). type_expected_idxs dl (the (bs_per_type self t)) (length c)) ` set eids
          = (\<lambda>(t, c). type_expected_idxs dl (?bs c) (length c)) ` set eids"
    by (rule image_cong) (use one in auto)
  with R have ex: "expected_idxs self =
      Max (insert 0 ((\<lambda>(t, c). type_expected_idxs dl (?bs c) (length c)) ` set eids))"
    by simp
  from one have bs: "\<forall>(t, c) \<in> set eids. bs_per_type self t = Some (?bs c) \<and> 1 \<le> ?bs c"
    by blast
  show ?thesis
    using ok bs ex unfolding type_expected_idxs_def by blast
qed

theorem all_etype_batch_sizes_witness:
  "distinct (map fst [(''cites'', [0, 1, 2::nat]), (''writes'', [0, 1, 2, 3, 4, 5, 6])]) \<and>
   (1::int) \<le> 4 \<and>
   4 * total_edges_of [(''cites'', [0, 1, 2::nat]), (''writes'', [0, 1, 2, 3, 4, 5, 6])] < 2 ^ 53 \<and>
   (\<exists>self. AllEtypeDistEdgeDataLoader
              [(''cites'', [0, 1, 2::nat]), (''writes'', [0, 1, 2, 3, 4, 5, 6])] 4 True False
            = Inr self \<and>
      bs_per_type self ''cites'' = Some 2 \<and> bs_per_type self ''writes'' = Some 3 \<and>
      expected_idxs self = 3)"
  using all_etype_batch_sizes
          [of "[(''cites'', [0, 1, 2::nat]), (''writes'', [0, 1, 2, 3, 4, 5, 6])]" 4 True False]
  by (simp add: total_edges_of_def)

text \<open>
  The claim as stated (the ceiling in every mode) fails with \<open>drop_last\<close> on: one type with
  three edges and batch size 2 has per-type batch size 2 and \<open>expected_idxs = 1\<close>, while
  \<open>\<lceil>3 / 2\<rceil> = 2\<close>.
\<close>

theorem all_etype_expected_idxs_counterexample:
  "(case AllEtypeDistEdgeDataLoader [(''writes'', [0, 1, 2::nat])] 2 False True of
      Inl e \<Rightarrow> False
    | Inr self \<Rightarrow>
        bs_per_type self ''writes'' = Some 2 \<and> expected_idxs self = 1 \<and>
        \<lceil>real_of_int (int (length [0, 1, 2::nat])) / real_of_int 2\<rceil> = (2::int))"
  by (simp add: AllEtypeDistEdgeDataLoader_def reinit_dataset_def ceil_truediv_small
        ceiling_divide_eq_div)

text \<open>
  The bound on \<open>B * T\<close> cannot be dropped: the quotient is a float.  With one edge and batch
  size \<open>2 ^ 53 + 1\<close> the per-type batch size is \<open>2 ^ 53\<close>, the float nearest to \<open>2 ^ 53 + 1\<close>;
  and with batch size \<open>2 ^ 1024\<close> the constructor raises \<^verbatim>\<open>OverflowError\<close>.
\<close>

lemma all_etype_batch_size_rounded:
  "map_sum id (\<lambda>self. bs_per_type self ''writes'')
     (AllEtypeDistEdgeDataLoader [(''writes'', [0::nat])] (2 ^ 53 + 1) False False)
     = Inr (Some (2 ^ 53))"
  "map_sum id expected_idxs
     (AllEtypeDistEdgeDataLoader [(''writes'', [0::nat])] (2 ^ 1024) False False)
     = Inl OverflowError"
  by code_simp+

lemma py_slice_in_range:
  "0 \<le> a \<Longrightarrow> a \<le> b \<Longrightarrow> b \<le> int (length xs) \<Longrightarrow>
   py_slice xs a b = take (nat (b - a)) (drop (nat a) xs)"
  by (simp add: py_slice_def Let_def min_def)

lemma set_py_slice: "set (py_slice xs a b) \<subseteq> set xs"
  unfolding py_slice_def Let_def
  by (meson set_drop_subset set_take_subset subset_trans)

lemma length_py_slice_in_range:
  "0 \<le> a \<Longrightarrow> a \<le> b \<Longrightarrow> b \<le> int (length xs) \<Longrightarrow> length (py_slice xs a b) = nat (b - a)"
  by (simp add: py_slice_in_range)

lemma next_data_etype_ok:
  assumes "type_ok self etype"
  shows "next_data_etype self etype =
           Inr (if exhausted self etype then None else Some (etype_batch self etype),
                advance self etype)"
proof -
  from assms obtain pos eids bs idxs where
    v: "current_pos self etype = Some pos" "map_of (dataset self) etype = Some eids"
       "bs_per_type self etype = Some bs" "map_of (data_idx self) etype = Some idxs"
    and r: "\<forall>i \<in> set idxs. i < length eids"
    unfolding type_ok_def by blast
  have idx: "tensor_index eids (py_slice idxs pos e) = Inr (map (\<lambda>i. eids ! i) (py_slice idxs pos e))"
    for e
    using r set_py_slice[of idxs pos e] by (auto simp: tensor_index_def)
  show ?thesis
    by (auto simp: next_data_etype_def v exhausted_def etype_batch_def etype_end_pos_def
                   advance_def idx Let_def min_def)
qed

lemma etype_batch_nonempty:
  assumes "type_ok self etype" and "\<not> exhausted self etype"
  shows "etype_batch self etype \<noteq> []"
proof -
  from assms(1) obtain pos eids bs idxs where
    v: "current_pos self etype = Some pos" "map_of (dataset self) etype = Some eids"
       "bs_per_type self etype = Some bs" "map_of (data_idx self) etype = Some idxs"
    and r: "length idxs = length eids" "1 \<le> bs" "0 \<le> pos" "pos \<le> int (length eids)"
    unfolding type_ok_def by blast
  from assms(2) v have lt: "pos < int (length eids)"
    using r by (auto simp: exhausted_def)
  let ?e = "min (pos + bs) (int (length eids))"
  have "pos < ?e" using lt r by simp
  moreover have "?e \<le> int (length idxs)" using r by simp
  ultimately have "length (py_slice idxs pos ?e) = nat (?e - pos)" "0 < nat (?e - pos)"
    using r(3) by (simp_all add: length_py_slice_in_range)
  then have "py_slice idxs pos ?e \<noteq> []" by auto
  then show ?thesis by (simp add: etype_batch_def etype_end_pos_def v)
qed

lemma etype_batch_subset:
  assumes "type_ok self etype" and "map_of (dataset self) etype = Some eids"
  shows "set (etype_batch self etype) \<subseteq> set eids"
proof -
  from assms obtain pos bs idxs where
    v: "current_pos self etype = Some pos" 
       "bs_per_type self etype = Some bs" "map_of (data_idx self) etype = Some idxs"
    and r: "\<forall>i \<in> set idxs. i < length eids"
    unfolding type_ok_def by auto
  show ?thesis
    using r set_py_slice[of idxs pos "etype_end_pos self etype"]
    by (auto simp: etype_batch_def v assms(2))
qed

lemma advance_fields [simp]:
  "dataset (advance self k) = dataset self"
  "data_idx (advance self k) = data_idx self"
  "bs_per_type (advance self k) = bs_per_type self"
  "drop_last (advance self k) = drop_last self"
  "shuffle (advance self k) = shuffle self"
  "batch_size (advance self k) = batch_size self"
  "expected_idxs (advance self k) = expected_idxs self"
  by (simp_all add: advance_def)

lemma advance_current_pos_other:
  "k' \<noteq> k \<Longrightarrow> current_pos (advance self k) k' = current_pos self k'"
  by (simp add: advance_def)

lemma advance_end_pos_other:
  "k' \<noteq> k \<Longrightarrow> etype_end_pos (advance self k) k' = etype_end_pos self k'"
  by (simp add: etype_end_pos_def advance_current_pos_other)

lemma advance_other:
  assumes "k' \<noteq> k"
  shows "exhausted (advance self k) k' = exhausted self k'"
    and "etype_batch (advance self k) k' = etype_batch self k'"
    and "type_ok (advance self k) k' = type_ok self k'"
  using assms
  by (simp_all add: exhausted_def etype_batch_def type_ok_def advance_end_pos_other
                    advance_current_pos_other split: option.splits)

lemma advance_type_ok:
  assumes "type_ok self k"
  shows "type_ok (advance self k) k"
proof (cases "exhausted self k")
  case True
  then show ?thesis using assms by (simp add: advance_def)
next
  case False
  from assms obtain pos eids bs idxs where
    v: "current_pos self k = Some pos" "map_of (dataset self) k = Some eids"
       "bs_per_type self k = Some bs" "map_of (data_idx self) k = Some idxs"
    and r: "length idxs = length eids" "\<forall>i \<in> set idxs. i < length eids"
       "1 \<le> bs" "0 \<le> pos" "pos \<le> int (length eids)" "eids \<noteq> []"
    unfolding type_ok_def by blast
  have "0 \<le> min (pos + bs) (int (length eids))" "min (pos + bs) (int (length eids)) \<le> int (length eids)"
    using r by simp_all
  then show ?thesis
    using False v r by (simp add: advance_def type_ok_def etype_end_pos_def)
qed

lemma advance_preserves_type_ok:
  "type_ok self k' \<Longrightarrow> type_ok (advance self k) k'"
  by (cases "k' = k") (simp_all add: advance_type_ok advance_other)

lemma foldl_advance_fields [simp]:
  "dataset (foldl advance self ks) = dataset self"
  "data_idx (foldl advance self ks) = data_idx self"
  "bs_per_type (foldl advance self ks) = bs_per_type self"
  "drop_last (foldl advance self ks) = drop_last self"
  by (induction ks arbitrary: self) simp_all

lemma foldl_advance_type_ok:
  "type_ok self k \<Longrightarrow> type_ok (foldl advance self ks) k"
  by (induction ks arbitrary: self) (simp_all add: advance_preserves_type_ok)

lemma next_data_loop_ok:
  assumes "distinct ks" and "\<forall>k \<in> set ks. type_ok self k"
  shows "next_data_loop ks self end ret =
           Inr (end \<and> (\<forall>k \<in> set ks. exhausted self k),
                ret @ map (\<lambda>k. (k, if exhausted self k then None else Some (etype_batch self k))) ks,
                foldl advance self ks)"
  using assms
proof (induction ks arbitrary: self "end" ret)
  case Nil
  then show ?case by simp
next
  case (Cons k ks)
  have ok: "\<forall>k' \<in> set ks. type_ok (advance self k) k'"
    using Cons.prems by (simp add: advance_preserves_type_ok)
  have other: "\<forall>k' \<in> set ks. exhausted (advance self k) k' = exhausted self k' \<and>
                 etype_batch (advance self k) k' = etype_batch self k'"
  proof
    fix k' assume "k' \<in> set ks"
    with Cons.prems(1) have "k' \<noteq> k" by auto
    then show "exhausted (advance self k) k' = exhausted self k' \<and>
                 etype_batch (advance self k) k' = etype_batch self k'"
      by (simp add: advance_other)
  qed
  have d: "distinct ks" using Cons.prems(1) by simp
  have m: "map (\<lambda>k'. (k', if exhausted (advance self k) k' then None
                          else Some (etype_batch (advance self k) k'))) ks
         = map (\<lambda>k'. (k', if exhausted self k' then None else Some (etype_batch self k'))) ks"
    using other by (intro map_cong) auto
  have a: "(\<forall>k' \<in> set ks. exhausted (advance self k) k') = (\<forall>k' \<in> set ks. exhausted self k')"
    using other by auto
  show ?case
    using Cons.prems(2)
    by (auto simp: next_data_etype_ok Cons.IH[OF d ok] m a)
qed

lemma new_ret_loop_ok:
  assumes "\<forall>rel_t \<in> set ret. \<exists>eids. map_of (dataset self) (fst rel_t) = Some eids \<and> eids \<noteq> []"
  shows "new_ret_loop rand self ret new_ret =
           Inr (new_ret @ concat (map (expand_entry rand (dataset self)) ret))"
  using assms
proof (induction rand self ret new_ret rule: new_ret_loop.induct)
  case (1 rand self new_ret)
  then show ?case by simp
next
  case (2 rand self etype rest new_ret)
  from "2.prems" obtain eids where e: "map_of (dataset self) etype = Some eids" "eids \<noteq> []"
    by auto
  then have g: "rand_gen self etype (rand etype) = Inr (eids ! (rand etype mod length eids))"
    by (simp add: rand_gen_def th_randint_def)
  show ?case
    using "2.IH"[OF g] "2.prems" by (simp add: g expand_entry_def e)
next
  case (3 rand self etype eids rest new_ret)
  then show ?case by (simp add: expand_entry_def)
qed

lemma foldl_advance_inv:
  assumes "loader_inv self"
  shows "loader_inv (foldl advance self ks)"
  using assms unfolding loader_inv_def by (simp add: foldl_advance_type_ok)

lemma next_data_ok:
  assumes "loader_inv self"
  shows "next_data rand self =
           Inr (if \<forall>etype \<in> fst ` set (dataset self). exhausted self etype then None
                else Some (concat (map (contribution rand self) (map fst (dataset self)))),
                foldl advance self (map fst (dataset self)))"
proof -
  let ?ks = "map fst (dataset self)"
  let ?ret = "map (\<lambda>k. (k, if exhausted self k then None else Some (etype_batch self k))) ?ks"
  let ?self' = "foldl advance self ?ks"
  from assms have d: "distinct ?ks" and ok: "\<forall>k \<in> set ?ks. type_ok self k"
    by (simp_all add: loader_inv_def)
  have loop: "next_data_loop ?ks self True [] =
                Inr (\<forall>k \<in> set ?ks. exhausted self k, ?ret, ?self')"
    using next_data_loop_ok[OF d ok, of True "[]"] by simp
  have "\<forall>rel_t \<in> set ?ret. \<exists>eids. map_of (dataset ?self') (fst rel_t) = Some eids \<and> eids \<noteq> []"
    using ok by (auto simp: type_ok_def)
  from new_ret_loop_ok[OF this, of rand "[]"]
  have nr: "new_ret_loop rand ?self' ?ret [] =
              Inr (concat (map (contribution rand self) ?ks))"
    by (simp add: contribution_def comp_def)
  show ?thesis
    unfolding next_data_def loop by (simp add: nr del: map_map)
qed

lemma next_data_inv:
  assumes "loader_inv self" and "next_data rand self = Inr (batch, self')"
  shows "loader_inv self'"
  using assms(2) foldl_advance_inv[OF assms(1), of "map fst (dataset self)"]
  unfolding next_data_ok[OF assms(1)] by auto

lemma contribution_keys:
  "(t, e) \<in> set (contribution rand self etype) \<Longrightarrow> t = etype"
  by (auto simp: contribution_def expand_entry_def split: option.splits if_splits)

lemma contribution_covers:
  assumes "type_ok self etype" and "map_of (dataset self) etype = Some eids"
  shows "\<exists>e \<in> set eids. (etype, e) \<in> set (contribution rand self etype)"
proof (cases "exhausted self etype")
  case True
  from assms have "eids \<noteq> []" by (auto simp: type_ok_def)
  then have "eids ! (rand etype mod length eids) \<in> set eids" by simp
  then show ?thesis using True assms(2) by (auto simp: contribution_def expand_entry_def)
next
  case False
  from etype_batch_nonempty[OF assms(1) False]
  obtain e where e: "e \<in> set (etype_batch self etype)" by (cases "etype_batch self etype") auto
  with etype_batch_subset[OF assms] have "e \<in> set eids" by auto
  then show ?thesis using False e by (auto simp: contribution_def expand_entry_def)
qed

lemma filter_concat_contribution:
  assumes "distinct ks" and "etype \<in> set ks"
  shows "filter (\<lambda>(t, e). t = etype) (concat (map (contribution rand self) ks))
           = contribution rand self etype"
  using assms
proof (induction ks)
  case Nil
  then show ?case by simp
next
  case (Cons k ks)
  have same: "filter (\<lambda>(t, e). t = etype) (contribution rand self etype) = contribution rand self etype"
    by (rule filter_True) (auto dest: contribution_keys)
  have diff: "filter (\<lambda>(t, e). t = etype) (contribution rand self k') = []" if "k' \<noteq> etype" for k'
    using that by (auto simp: filter_empty_conv dest: contribution_keys)
  have none: "filter (\<lambda>(t, e). t = etype) (concat (map (contribution rand self) ks')) = []"
    if "etype \<notin> set ks'" for ks'
    using that by (induction ks') (auto simp: diff)
  show ?case
  proof (cases "k = etype")
    case True
    with Cons.prems have "etype \<notin> set ks" by simp
    then show ?thesis using True by (simp add: same none)
  next
    case False
    with Cons show ?thesis by (simp add: diff)
  qed
qed

lemma map_of_map_key:
  "map_of xs k = Some v \<Longrightarrow> map_of (map (\<lambda>(a, b). (a, f a b)) xs) k = Some (f k v)"
  by (induction xs) (auto split: if_splits)

lemma total_edges_nonneg: "0 \<le> total_edges_of eids"
  unfolding total_edges_of_def by (rule sum_list_nonneg) auto

lemma constructed_inv:
  assumes "distinct (map fst eids)" and "1 \<le> B"
    and "AllEtypeDistEdgeDataLoader eids B sh dl = Inr self"
  shows "loader_inv self"
proof -
  let ?s0 = "\<lparr>dataset = eids, batch_size = B, shuffle = sh, drop_last = dl,
               data_idx = [], bs_per_type = Map.empty, expected_idxs = 0,
               current_pos = Map.empty, recv_idxs = 0, num_pending = 0\<rparr>"
  let ?T = "total_edges_of eids"
  let ?di = "map (\<lambda>(key, val). (key, [0..<length val])) eids"
  from assms(3) have r: "reinit_dataset ?s0 = Inr self"
    by (simp add: AllEtypeDistEdgeDataLoader_def)
  have d: "distinct (map fst (dataset ?s0))" using assms(1) by simp
  note R = reinit_dataset_Inr[OF r d]
  have "type_ok self t" if tc: "(t, c) \<in> set eids" for t c
  proof -
    from R tc obtain bs where
      cd: "ceil_truediv (B * int (length c)) ?T = Inr bs" and bs: "bs \<noteq> 0"
      and bsv: "bs_per_type self t = Some bs"
      by fastforce
    from cd have T: "?T \<noteq> 0" by (rule ceil_truediv_Inr_nonzero)
    from T total_edges_nonneg[of eids] have Tp: "0 < ?T" by simp
    have cne: "c \<noteq> []"
    proof
      assume "c = []"
      then have "ceil_truediv (B * int (length c)) ?T = Inr 0"
        using T by (simp add: ceil_truediv_zero)
      with cd bs show False by simp
    qed
    have "0 \<le> B * int (length c)" using assms(2) by simp
    then have "0 \<le> bs" using Tp cd by (rule ceil_truediv_nonneg)
    with bs have bs1: "1 \<le> bs" by simp
    have look: "map_of eids t = Some c" using tc assms(1) by simp
    have di: "map_of ?di t = Some [0..<length c]"
      using look by (rule map_of_map_key)
    have cp: "map_of (map (\<lambda>(key, val). (key, 0::int)) eids) t = Some 0"
      using look by (rule map_of_map_key)
    show ?thesis
      unfolding type_ok_def
      using R look di cp bsv bs1 cne by simp
  qed
  moreover have "dataset self = eids" using R by simp
  ultimately show ?thesis
    using assms(1) by (auto simp: loader_inv_def)
qed

lemma loader_iter_inv:
  assumes "loader_inv self"
    and "\<forall>(k, idxs) \<in> set (data_idx self). mset (randperm k) = mset [0..<length idxs]"
  shows "loader_inv (loader_iter randperm self)"
proof -
  let ?di = "if shuffle self
             then map (\<lambda>(etype, idxs). (etype, randperm etype)) (data_idx self)
             else data_idx self"
  have "type_ok (loader_iter randperm self) t" if "t \<in> fst ` set (dataset self)" for t
  proof -
    from assms(1) that have "type_ok self t" by (auto simp: loader_inv_def)
    then obtain pos eids bs idxs where
      v: "current_pos self t = Some pos" "map_of (dataset self) t = Some eids"
         "bs_per_type self t = Some bs" "map_of (data_idx self) t = Some idxs"
      and r: "length idxs = length eids" "\<forall>i \<in> set idxs. i < length eids"
         "1 \<le> bs" "eids \<noteq> []"
      unfolding type_ok_def by blast
    from v(4) have mem: "(t, idxs) \<in> set (data_idx self)" by (rule map_of_SomeD)
    with assms(2) have perm: "mset (randperm t) = mset [0..<length idxs]" by auto
    have sh: "map_of (map (\<lambda>(etype, idxs). (etype, randperm etype)) (data_idx self)) t
                = Some (randperm t)"
      using v(4) by (rule map_of_map_key)
    obtain idxs' where di: "map_of ?di t = Some idxs'"
      and len: "length idxs' = length eids" and rng: "\<forall>i \<in> set idxs'. i < length eids"
    proof (cases "shuffle self")
      case True
      have "length (randperm t) = length eids"
        using perm r(1) by (metis length_upt mset_eq_length minus_nat.diff_0)
      moreover have "set (randperm t) = {0..<length eids}"
        using perm r(1) by (metis mset_eq_setD set_upt)
      ultimately show ?thesis using that[of "randperm t"] True sh by simp
    next
      case False
      then show ?thesis using that[of idxs] v(4) r by simp
    qed
    have cp: "map_of (map (\<lambda>(etype, _). (etype, 0::int)) ?di) t = Some 0"
      using di by (rule map_of_map_key)
    show ?thesis
      unfolding type_ok_def loader_iter_def Let_def
      using v r di len rng cp by simp
  qed
  then show ?thesis
    using assms(1) by (simp add: loader_inv_def loader_iter_def Let_def)
qed

lemma reachable_inv: "reachable self \<Longrightarrow> loader_inv self"
  by (induction rule: reachable.induct)
     (simp_all add: constructed_inv loader_iter_inv next_data_inv)

text \<open>
  Claim C1.  In every state the loader reaches, in any epoch and for any random draws,
  \<^verbatim>\<open>_next_data\<close> returns without error; it returns \<^verbatim>\<open>None\<close> (end of the epoch) exactly when
  every edge type of the dataset has reached its exhaustion condition; and every minibatch
  it returns holds, for every edge type of the dataset, at least one edge of that type taken
  from the type's target edges.
\<close>

theorem all_etype_minibatch:
  assumes "reachable self"
  shows "\<exists>batch self'.
           next_data rand self = Inr (batch, self') \<and>
           (batch = None \<longleftrightarrow> (\<forall>etype \<in> fst ` set (dataset self). exhausted self etype)) \<and>
           (\<forall>mb. batch = Some mb \<longrightarrow>
              (\<forall>(etype, eids) \<in> set (dataset self). \<exists>e \<in> set eids. (etype, e) \<in> set mb))"
proof -
  from assms have inv: "loader_inv self" by (rule reachable_inv)
  let ?ks = "map fst (dataset self)"
  let ?mb = "concat (map (contribution rand self) ?ks)"
  have cover: "\<exists>e \<in> set eids. (etype, e) \<in> set ?mb" if m: "(etype, eids) \<in> set (dataset self)"
    for etype eids
  proof -
    from inv m have ok: "type_ok self etype" and look: "map_of (dataset self) etype = Some eids"
      by (auto simp: loader_inv_def)
    from contribution_covers[OF ok look, of rand] obtain e where
      "e \<in> set eids" "(etype, e) \<in> set (contribution rand self etype)" by blast
    moreover have "etype \<in> set ?ks" using m by force
    ultimately show ?thesis by auto
  qed
  show ?thesis
    unfolding next_data_ok[OF inv] using cover by auto
qed

text \<open>
  Claim C3 (amended).  In every minibatch the loader produces, an edge type that has reached
  its exhaustion condition contributes exactly one entry, an edge of its own drawn at random,
  whether \<open>drop_last\<close> is on or off; a type that is not exhausted contributes the edges
  \<^verbatim>\<open>_next_data_etype\<close> returned for it.
\<close>

theorem exhausted_type_redrawn:
  assumes "reachable self" and "next_data rand self = Inr (Some mb, self')"
    and "(etype, eids) \<in> set (dataset self)"
  shows "(exhausted self etype \<longrightarrow>
            filter (\<lambda>(t, e). t = etype) mb = [(etype, eids ! (rand etype mod length eids))] \<and>
            rand etype mod length eids < length eids) \<and>
         (\<not> exhausted self etype \<longrightarrow>
            filter (\<lambda>(t, e). t = etype) mb = map (\<lambda>data. (etype, data)) (etype_batch self etype))"
proof -
  from assms(1) have inv: "loader_inv self" by (rule reachable_inv)
  from inv assms(3) have ok: "type_ok self etype" and look: "map_of (dataset self) etype = Some eids"
    and d: "distinct (map fst (dataset self))"
    by (auto simp: loader_inv_def)
  from ok look have ne: "eids \<noteq> []" by (auto simp: type_ok_def)
  have k: "etype \<in> set (map fst (dataset self))" using assms(3) by force
  from assms(2) have mb: "mb = concat (map (contribution rand self) (map fst (dataset self)))"
    unfolding next_data_ok[OF inv] by (auto split: if_splits)
  have "filter (\<lambda>(t, e). t = etype) mb = contribution rand self etype"
    unfolding mb using d k by (rule filter_concat_contribution)
  then show ?thesis
    using look ne by (simp add: contribution_def expand_entry_def)
qed

text \<open>
  The claim as stated (an exhausted type stops contributing when \<open>drop_last\<close> is on) fails:
  with \<open>drop_last\<close> on, one \<^verbatim>\<open>cites\<close> edge, five \<^verbatim>\<open>writes\<close> edges and batch size 2, the type
  \<^verbatim>\<open>cites\<close> is exhausted after the first minibatch, and the second minibatch still holds one
  \<^verbatim>\<open>cites\<close> edge.
\<close>

theorem exhausted_type_drop_last_counterexample:
  "(case AllEtypeDistEdgeDataLoader
           [(''cites'', [10::nat]), (''writes'', [20, 21, 22, 23, 24])] 2 False True of
      Inl e \<Rightarrow> False
    | Inr self \<Rightarrow>
        (case next_data (\<lambda>_. 0) (loader_iter (\<lambda>_. []) self) of
           Inr (Some mb1, self1) \<Rightarrow>
             mb1 = [(''cites'', 10), (''writes'', 20), (''writes'', 21)] \<and>
             drop_last self1 \<and> exhausted self1 ''cites'' \<and>
             (case next_data (\<lambda>_. 0) self1 of
                Inr (Some mb2, self2) \<Rightarrow>
                  mb2 = [(''cites'', 10), (''writes'', 22), (''writes'', 23)]
              | _ \<Rightarrow> False)
         | _ \<Rightarrow> False))"
  by (simp add: loader_eval)

theorem all_etype_minibatch_witness:
  "reachable (projr (AllEtypeDistEdgeDataLoader
       [(''cites'', [10::nat]), (''writes'', [20, 21, 22, 23, 24])] 2 False False)) \<and>
   (\<exists>batch self'.
      next_data (\<lambda>_. 0) (projr (AllEtypeDistEdgeDataLoader
         [(''cites'', [10::nat]), (''writes'', [20, 21, 22, 23, 24])] 2 False False))
        = Inr (batch, self') \<and>
      batch = Some [(''cites'', 10), (''writes'', 20), (''writes'', 21)] \<and>
      (\<exists>e \<in> set [10]. (''cites'', e) \<in> set (the batch)) \<and>
      (\<exists>e \<in> set [20, 21, 22, 23, 24]. (''writes'', e) \<in> set (the batch)))"
proof -
  let ?c = "AllEtypeDistEdgeDataLoader
       [(''cites'', [10::nat]), (''writes'', [20, 21, 22, 23, 24])] 2 False False"
  have c: "?c = Inr (projr ?c)" by (simp add: loader_eval)
  have r: "reachable (projr ?c)"
    by (rule reachable.constructed[OF _ _ c]) simp_all
  have ds: "dataset (projr ?c) = [(''cites'', [10::nat]), (''writes'', [20, 21, 22, 23, 24])]"
    by (simp add: loader_eval)
  have ev: "map_sum id fst (next_data (\<lambda>_. 0) (projr ?c))
              = Inr (Some [(''cites'', 10), (''writes'', 20), (''writes'', 21)])"
    by (simp add: loader_eval)
  from all_etype_minibatch[OF r, of "\<lambda>_. 0"] ev show ?thesis
    using r unfolding ds by auto
qed

theorem exhausted_type_redrawn_witness:
  "reachable (snd (projr (next_data (\<lambda>_. 0) (projr (AllEtypeDistEdgeDataLoader
       [(''cites'', [10::nat]), (''writes'', [20, 21, 22, 23, 24])] 2 False False))))) \<and>
   next_data (\<lambda>_. 3) (snd (projr (next_data (\<lambda>_. 0) (projr (AllEtypeDistEdgeDataLoader
       [(''cites'', [10::nat]), (''writes'', [20, 21, 22, 23, 24])] 2 False False)))))
     = Inr (Some [(''cites'', 10), (''writes'', 22), (''writes'', 23)],
            snd (projr (next_data (\<lambda>_. 3) (snd (projr (next_data (\<lambda>_. 0)
              (projr (AllEtypeDistEdgeDataLoader
                 [(''cites'', [10::nat]), (''writes'', [20, 21, 22, 23, 24])] 2 False False)))))))) \<and>
   exhausted (snd (projr (next_data (\<lambda>_. 0) (projr (AllEtypeDistEdgeDataLoader
       [(''cites'', [10::nat]), (''writes'', [20, 21, 22, 23, 24])] 2 False False))))) ''cites'' \<and>
   \<not> exhausted (snd (projr (next_data (\<lambda>_. 0) (projr (AllEtypeDistEdgeDataLoader
       [(''cites'', [10::nat]), (''writes'', [20, 21, 22, 23, 24])] 2 False False))))) ''writes'' \<and>
   filter (\<lambda>(t, e). t = ''cites'') [(''cites'', 10::nat), (''writes'', 22), (''writes'', 23)]
     = [(''cites'', [10] ! (3 mod length [10::nat]))] \<and>
   filter (\<lambda>(t, e). t = ''writes'') [(''cites'', 10::nat), (''writes'', 22), (''writes'', 23)]
     = map (\<lambda>data. (''writes'', data))
         (etype_batch (snd (projr (next_data (\<lambda>_. 0) (projr (AllEtypeDistEdgeDataLoader
            [(''cites'', [10::nat]), (''writes'', [20, 21, 22, 23, 24])] 2 False False)))))
          ''writes'')"
proof -
  let ?c = "AllEtypeDistEdgeDataLoader
       [(''cites'', [10::nat]), (''writes'', [20, 21, 22, 23, 24])] 2 False False"
  let ?n1 = "next_data (\<lambda>_. 0) (projr ?c)"
  let ?s1 = "snd (projr ?n1)"
  let ?n2 = "next_data (\<lambda>_. 3) ?s1"
  have c: "?c = Inr (projr ?c)" by (simp add: loader_eval)
  have r0: "reachable (projr ?c)"
    by (rule reachable.constructed[OF _ _ c]) simp_all
  have n1: "?n1 = Inr (fst (projr ?n1), ?s1)" by (simp add: loader_eval)
  have r1: "reachable ?s1" by (rule reachable.step[OF r0 n1])
  have n2: "?n2 = Inr (Some [(''cites'', 10), (''writes'', 22), (''writes'', 23)], snd (projr ?n2))"
    by (simp add: loader_eval)
  have ds: "dataset ?s1 = [(''cites'', [10::nat]), (''writes'', [20, 21, 22, 23, 24])]"
    by (simp add: loader_eval)
  have e1: "exhausted ?s1 ''cites''" and e2: "\<not> exhausted ?s1 ''writes''"
    by (simp_all add: loader_eval)
  have m1: "(''cites'', [10]) \<in> set (dataset ?s1)" and m2: "(''writes'', [20, 21, 22, 23, 24]) \<in> set (dataset ?s1)"
    unfolding ds by simp_all
  from exhausted_type_redrawn[OF r1 n2 m1] exhausted_type_redrawn[OF r1 n2 m2] e1 e2
  show ?thesis using r1 n2 by simp
qed

section \<open>Properties of the edge, link-prediction and node dataloaders\<close>

lemma collect_inner:
  "foldl (collect_etype gsdata dst) acc es =
     (fst acc @ filter (\<lambda>e. snd (snd e) = dst \<and> has_node_feats gsdata (fst e)) es,
      if \<exists>e \<in> set es. snd (snd e) = dst \<and> has_node_feats gsdata (fst e)
      then insert dst (snd acc) else snd acc)"
  by (induction es arbitrary: acc) (auto simp: collect_etype_def)

lemma collect_outer:
  "foldl (\<lambda>acc dst_ntype. foldl (collect_etype gsdata dst_ntype) acc (canonical_etypes gsdata))
         acc ntys =
     (fst acc @ concat (map (\<lambda>dst. filter (\<lambda>e. snd (snd e) = dst \<and> has_node_feats gsdata (fst e))
                                       (canonical_etypes gsdata)) ntys),
      snd acc \<union> {dst \<in> set ntys. \<exists>e \<in> set (canonical_etypes gsdata).
                      snd (snd e) = dst \<and> has_node_feats gsdata (fst e)})"
proof (induction ntys arbitrary: acc)
  case Nil
  then show ?case by simp
next
  case (Cons n ntys)
  let ?F = "\<lambda>acc dst_ntype. foldl (collect_etype gsdata dst_ntype) acc (canonical_etypes gsdata)"
  have "foldl ?F acc (n # ntys) = foldl ?F (?F acc n) ntys" by simp
  also have "\<dots> = (fst (?F acc n) @ concat (map (\<lambda>dst. filter (\<lambda>e. snd (snd e) = dst \<and> has_node_feats gsdata (fst e))
                                       (canonical_etypes gsdata)) ntys),
      snd (?F acc n) \<union> {dst \<in> set ntys. \<exists>e \<in> set (canonical_etypes gsdata).
                      snd (snd e) = dst \<and> has_node_feats gsdata (fst e)})"
    by (rule Cons.IH)
  also have "\<dots> = (fst acc @ concat (map (\<lambda>dst. filter (\<lambda>e. snd (snd e) = dst \<and> has_node_feats gsdata (fst e))
                                       (canonical_etypes gsdata)) (n # ntys)),
      snd acc \<union> {dst \<in> set (n # ntys). \<exists>e \<in> set (canonical_etypes gsdata).
                      snd (snd e) = dst \<and> has_node_feats gsdata (fst e)})"
    unfolding collect_inner by auto
  finally show ?case .
qed

lemma collect_etypes_eq:
  "collect_etypes gsdata ntys =
     (concat (map (\<lambda>dst. filter (\<lambda>e. snd (snd e) = dst \<and> has_node_feats gsdata (fst e))
                            (canonical_etypes gsdata)) ntys),
      {dst \<in> set ntys. \<exists>e \<in> set (canonical_etypes gsdata).
          snd (snd e) = dst \<and> has_node_feats gsdata (fst e)})"
  unfolding collect_etypes_def collect_outer by simp

lemma set_collect_etypes:
  "set (fst (collect_etypes gsdata ntys)) =
     {e \<in> set (canonical_etypes gsdata). feature_bearing gsdata ntys e}"
  unfolding collect_etypes_eq feature_bearing_def by auto

lemma fanout_dict_lookup:
  "foldl (\<lambda>d etype. d(etype \<mapsto> f etype)) m es x = (if x \<in> set es then Some (f x) else m x)"
  by (induction es arbitrary: m) auto

lemma remain_ntypes_eq:
  "set ntys - snd (collect_etypes gsdata ntys) = unreconstructable gsdata ntys"
  unfolding collect_etypes_eq unreconstructable_def by auto

text \<open>
  Claim C5 (amended).  Let the fanout be positive or \<open>-1\<close>.  If some requested node type has
  no incoming edge type whose source node type carries stored features, constructing the
  feature-reconstruction sampler fails: the assertion on the node types that cannot be
  reconstructed raises \<^verbatim>\<open>AssertionError\<close> (the spec's ConfigurationError).  If every requested
  type has such an edge type and at least one type is requested, construction succeeds, and
  the fanout mapping gives the configured fanout to exactly the feature-bearing incoming
  edge types of the requested node types and 0 to every other canonical edge type.
\<close>

theorem reconstructed_sampler_init:
  assumes "fanout > 0 \<or> fanout = - 1"
  shows "(unreconstructable gsdata ntys \<noteq> {} \<longrightarrow>
            ReconstructedNeighborSampler gsdata ntys fanout =
              Inl (AssertionError (Cannot_construct_features (unreconstructable gsdata ntys)))) \<and>
         (unreconstructable gsdata ntys = {} \<and> ntys \<noteq> [] \<longrightarrow>
            (\<exists>s. ReconstructedNeighborSampler gsdata ntys fanout = Inr s \<and>
                 set (subg_etypes s) =
                   {e \<in> set (canonical_etypes gsdata). feature_bearing gsdata ntys e} \<and>
                 (\<forall>e. rs_fanout s e =
                        (if e \<in> set (canonical_etypes gsdata)
                         then Some (if feature_bearing gsdata ntys e then fanout else 0)
                         else None))))"
proof (intro conjI impI)
  assume u: "unreconstructable gsdata ntys \<noteq> {}"
  obtain subg tn where c: "collect_etypes gsdata ntys = (subg, tn)"
    by (cases "collect_etypes gsdata ntys")
  have rem: "set ntys - tn = unreconstructable gsdata ntys"
    using remain_ntypes_eq[of ntys gsdata] c by simp
  show "ReconstructedNeighborSampler gsdata ntys fanout =
              Inl (AssertionError (Cannot_construct_features (unreconstructable gsdata ntys)))"
    unfolding ReconstructedNeighborSampler_def Let_def c prod.case rem
    using assms u by simp
next
  assume a: "unreconstructable gsdata ntys = {} \<and> ntys \<noteq> []"
  obtain subg tn where c: "collect_etypes gsdata ntys = (subg, tn)" by (cases "collect_etypes gsdata ntys")
  from a obtain n where n: "n \<in> set ntys" by (cases ntys) auto
  with a obtain e where e: "e \<in> set (canonical_etypes gsdata)" "snd (snd e) = n"
      "has_node_feats gsdata (fst e)"
    unfolding unreconstructable_def by auto
  then have "e \<in> set (fst (collect_etypes gsdata ntys))"
    using n unfolding set_collect_etypes feature_bearing_def by simp
  then have ne: "subg \<noteq> []" using c by auto
  have rem: "set ntys - tn = {}" using remain_ntypes_eq[of ntys gsdata] a c by simp
  have sub: "set subg = {e \<in> set (canonical_etypes gsdata). feature_bearing gsdata ntys e}"
    using set_collect_etypes[of gsdata ntys] c by simp
  have fb: "e \<in> set subg \<longleftrightarrow> feature_bearing gsdata ntys e" if "e \<in> set (canonical_etypes gsdata)" for e
    using that sub by simp
  show "\<exists>s. ReconstructedNeighborSampler gsdata ntys fanout = Inr s \<and>
                 set (subg_etypes s) =
                   {e \<in> set (canonical_etypes gsdata). feature_bearing gsdata ntys e} \<and>
                 (\<forall>e. rs_fanout s e =
                        (if e \<in> set (canonical_etypes gsdata)
                         then Some (if feature_bearing gsdata ntys e then fanout else 0)
                         else None))"
    unfolding ReconstructedNeighborSampler_def Let_def c prod.case rem
    using assms ne sub fb by (simp add: fanout_dict_lookup)
qed

lemma assert_etypes_find:
  "assert_etypes_in_graph ks cetypes =
     (case find (\<lambda>k. k \<notin> set cetypes) ks of
        None \<Rightarrow> Inr ()
      | Some k \<Rightarrow> Inl (AssertionError (Etype_not_in_graph k)))"
  by (induction ks) auto

lemma assert_etypes_pass:
  "assert_etypes_in_graph ks cetypes = Inr () \<longleftrightarrow> set ks \<subseteq> set cetypes"
  by (induction ks) auto

lemma find_absent:
  "\<exists>k \<in> set ks. k \<notin> set cetypes \<Longrightarrow>
   \<exists>k. find (\<lambda>k. k \<notin> set cetypes) ks = Some k \<and> k \<in> set ks \<and> k \<notin> set cetypes"
  by (induction ks) auto

text \<open>
  Claim C8 (amended).  If the target index of an edge, link-prediction or link-prediction
  test dataloader has a key that is not a canonical edge type of the graph, its constructor
  fails with \<^verbatim>\<open>AssertionError\<close>, so no loader exists to produce a minibatch.  For the two
  link-prediction loaders the assertion that fails is the membership check, on the first such
  key in the order of the target index (the spec's GraphTypeError); the check runs over the
  keys in order up to that one.  For the edge loader it is the same assertion unless
  \<^verbatim>\<open>remove_target_edge_type\<close> is set and no reverse map is given: then the assertion on the
  reverse map, which comes first, is the one that fails.
\<close>

theorem absent_etype_fails:
  assumes "\<exists>k \<in> set (map fst target_idx). k \<notin> set (canonical_etypes gsdata)"
  shows "\<exists>k. find (\<lambda>k. k \<notin> set (canonical_etypes gsdata)) (map fst target_idx) = Some k \<and>
           k \<in> set (map fst target_idx) \<and> k \<notin> set (canonical_etypes gsdata) \<and>
           GSgnnLinkPredictionDataLoader world_size gsdata target_idx fanout bsz num_negative_edges
               train_task reverse_edge_types_map exclude_training_targets
               edge_mask_for_gnn_embeddings construct_feat_ntype construct_feat_fanout
             = Inl (AssertionError (Etype_not_in_graph k)) \<and>
           GSgnnLinkPredictionTestDataLoader gsdata target_idx bsz num_negative_edges
             = Inl (AssertionError (Etype_not_in_graph k)) \<and>
           GSgnnEdgeDataLoader modify_fanout_for_target_etype gsdata target_idx fanout bsz
               train_task reverse_edge_types_map' remove_target_edge_type
               exclude_training_targets construct_feat_ntype construct_feat_fanout
             = (if remove_target_edge_type \<and> reverse_edge_types_map' = None
                then Inl (AssertionError Reversed_etype_not_provided)
                else Inl (AssertionError (Etype_not_in_graph k)))"
proof -
  from find_absent[OF assms] obtain k where
    k: "find (\<lambda>k. k \<notin> set (canonical_etypes gsdata)) (map fst target_idx) = Some k"
       "k \<in> set (map fst target_idx)" "k \<notin> set (canonical_etypes gsdata)"
    by blast
  have a: "assert_etypes_in_graph (map fst target_idx) (canonical_etypes gsdata)
             = Inl (AssertionError (Etype_not_in_graph k))"
    by (simp add: assert_etypes_find k(1))
  have lp: "GSgnnLinkPredictionDataLoader world_size gsdata target_idx fanout bsz num_negative_edges
               train_task reverse_edge_types_map exclude_training_targets
               edge_mask_for_gnn_embeddings construct_feat_ntype construct_feat_fanout
             = Inl (AssertionError (Etype_not_in_graph k))"
    by (simp add: GSgnnLinkPredictionDataLoader_def a)
  have tl: "GSgnnLinkPredictionTestDataLoader gsdata target_idx bsz num_negative_edges
             = Inl (AssertionError (Etype_not_in_graph k))"
    by (simp add: GSgnnLinkPredictionTestDataLoader_def a)
  have el: "GSgnnEdgeDataLoader modify_fanout_for_target_etype gsdata target_idx fanout bsz
               train_task reverse_edge_types_map' remove_target_edge_type
               exclude_training_targets construct_feat_ntype construct_feat_fanout
             = (if remove_target_edge_type \<and> reverse_edge_types_map' = None
                then Inl (AssertionError Reversed_etype_not_provided)
                else Inl (AssertionError (Etype_not_in_graph k)))"
    by (cases reverse_edge_types_map') (simp_all add: GSgnnEdgeDataLoader_def a)
  from k lp tl el show ?thesis by blast
qed

lemma trim_data_dvd: "world_size dvd length (trim_data world_size nids)"
proof -
  have "length (trim_data world_size nids) = length nids - length nids mod world_size"
    by (simp add: trim_data_def)
  then show ?thesis by (simp add: dvd_minus_mod)
qed

lemma trim_data_prefix: "prefix (trim_data world_size nids) nids"
  by (simp add: trim_data_def take_is_prefix)

lemma trim_data_id: "world_size dvd length nids \<Longrightarrow> trim_data world_size nids = nids"
  by (auto simp: trim_data_def)

lemma lp_loader_target_idx:
  assumes "GSgnnLinkPredictionDataLoader world_size gsdata target_idx fanout bsz num_negative_edges
               train_task reverse_edge_types_map exclude_training_targets
               edge_mask_for_gnn_embeddings construct_feat_ntype construct_feat_fanout = Inr self"
  shows "ld_target_idx self =
           (if train_task then map (\<lambda>(etype, ids). (etype, trim_data world_size ids)) target_idx
            else target_idx) \<and>
         dl_target_idxs (ld_dataloader self) = ld_target_idx self"
  using assms
  by (auto simp: GSgnnLinkPredictionDataLoader_def lp_prepare_dataloader_def Let_def
           split: sum.splits)

lemma node_loader_target_idx:
  assumes "GSgnnNodeDataLoader world_size gsdata target_idx fanout bsz train_task
               construct_feat_ntype construct_feat_fanout = Inr self"
  shows "ld_target_idx self =
           (if train_task then map (\<lambda>(ntype, ids). (ntype, trim_data world_size ids)) target_idx
            else target_idx) \<and>
         dl_target_idxs (ld_dataloader self) = ld_target_idx self"
  using assms
  by (auto simp: GSgnnNodeDataLoader_def node_prepare_dataloader_def Let_def
           split: sum.splits)

lemma edge_loader_target_idx:
  assumes "GSgnnEdgeDataLoader modify_fanout_for_target_etype gsdata target_idx fanout bsz
               train_task reverse_edge_types_map remove_target_edge_type
               exclude_training_targets construct_feat_ntype construct_feat_fanout = Inr self"
  shows "ld_target_idx self = target_idx \<and> dl_target_idxs (ld_dataloader self) = target_idx"
  using assms
  by (auto simp: GSgnnEdgeDataLoader_def edge_prepare_dataloader_def
           split: sum.splits if_splits option.splits)

lemma test_loader_target_idx:
  assumes "GSgnnLinkPredictionTestDataLoader gsdata target_idx bsz num_negative_edges = Inr self"
  shows "tl_target_idx self = target_idx"
  using assms by (auto simp: GSgnnLinkPredictionTestDataLoader_def split: sum.splits)

lemma iter_target_idx: "ld_target_idx (loader_iter_epoch epoch self) = ld_target_idx self"
  by (simp add: loader_iter_epoch_def)

lemma edge_next_target_idx:
  "edge_loader_next g self = Inr (batch, self') \<Longrightarrow> ld_target_idx self' = ld_target_idx self"
  by (auto simp: edge_loader_next_def split: sum.splits prod.splits)

lemma lp_next_target_idx:
  "lp_loader_next g self = Inr (batch, self') \<Longrightarrow> ld_target_idx self' = ld_target_idx self"
  by (auto simp: lp_loader_next_def split: sum.splits prod.splits)

lemma node_next_target_idx:
  "node_loader_next g self = Inr (batch, self') \<Longrightarrow> ld_target_idx self' = ld_target_idx self"
  by (auto simp: node_loader_next_def split: sum.splits prod.splits)

lemma construct_feat_Some:
  "construct_feat g (Some s) input_nodes blocks =
     (if blocks \<noteq> [] then (snd (sample g s input_nodes), fst (sample g s input_nodes) # blocks)
      else (input_nodes, blocks))"
  by (simp add: construct_feat_def list_insert_def split: prod.splits)

lemma construct_feat_None: "construct_feat g None input_nodes blocks = (input_nodes, blocks)"
  by (simp add: construct_feat_def)

lemma acm_unreconstructable:
  "unreconstructable acm_data [''author''] = {}"
  "unreconstructable acm_data [''author'', ''venue''] = {''venue''}"
  "unreconstructable acm_data [] = {}"
  by (auto simp: unreconstructable_def acm_data_def)

theorem reconstructed_sampler_init_witness:
  "((5::int) > 0 \<or> (5::int) = - 1) \<and>
   unreconstructable acm_data [''author'', ''venue''] = {''venue''} \<and>
   ReconstructedNeighborSampler acm_data [''author'', ''venue''] 5 =
     Inl (AssertionError (Cannot_construct_features {''venue''})) \<and>
   unreconstructable acm_data [''author''] = {} \<and>
   (\<exists>s. ReconstructedNeighborSampler acm_data [''author''] 5 = Inr s \<and>
        rs_fanout s (''paper'', ''rev-writing'', ''author'') = Some 5 \<and>
        rs_fanout s (''paper'', ''cites'', ''paper'') = Some 0 \<and>
        rs_fanout s (''author'', ''writing'', ''paper'') = Some 0 \<and>
        rs_fanout s (''paper'', ''cites'', ''venue'') = None)"
proof -
  have f: "(5::int) > 0 \<or> (5::int) = - 1" by simp
  from reconstructed_sampler_init[OF f, of acm_data "[''author'', ''venue'']"]
  have a: "ReconstructedNeighborSampler acm_data [''author'', ''venue''] 5 =
     Inl (AssertionError (Cannot_construct_features {''venue''}))"
    by (simp add: acm_unreconstructable)
  from reconstructed_sampler_init[OF f, of acm_data "[''author'']"]
  obtain s where s: "ReconstructedNeighborSampler acm_data [''author''] 5 = Inr s"
    "\<forall>e. rs_fanout s e =
          (if e \<in> set (canonical_etypes acm_data)
           then Some (if feature_bearing acm_data [''author''] e then 5 else 0)
           else None)"
    by (auto simp: acm_unreconstructable)
  have "rs_fanout s (''paper'', ''rev-writing'', ''author'') = Some 5"
       "rs_fanout s (''paper'', ''cites'', ''paper'') = Some 0"
       "rs_fanout s (''author'', ''writing'', ''paper'') = Some 0"
       "rs_fanout s (''paper'', ''cites'', ''venue'') = None"
    by (simp_all add: s(2) acm_data_def feature_bearing_def)
  with a s(1) show ?thesis by (simp add: acm_unreconstructable)
qed

text \<open>
  The claim as stated (construction succeeds whenever every requested type has such an edge
  type) fails for the empty request: no type lacks an edge type, and the last assertion of
  \<^verbatim>\<open>__init__\<close>, on the sampled edge types being non-empty, fails.
\<close>

theorem reconstructed_sampler_empty_counterexample:
  "unreconstructable acm_data [] = {} \<and>
   ReconstructedNeighborSampler acm_data [] 5 = Inl (AssertionError Sampled_etypes_empty)"
  by (simp add: acm_unreconstructable)
     (simp add: ReconstructedNeighborSampler_def collect_etypes_def)

theorem absent_etype_fails_witness:
  "(''paper'', ''reviews'', ''paper'') \<in> set (map fst [((''paper'', ''reviews'', ''paper''), [0::nat, 1])]) \<and>
   (''paper'', ''reviews'', ''paper'') \<notin> set (canonical_etypes acm_data) \<and>
   GSgnnLinkPredictionDataLoader 2 acm_data [((''paper'', ''reviews'', ''paper''), [0::nat, 1])]
       [10::int, 5] 128 4 True (None :: unit option) False (Some ''train_mask'') [] 5
     = (Inl (AssertionError (Etype_not_in_graph (''paper'', ''reviews'', ''paper'')))
        :: _ + (_, _, _, _, _, _, unit) gs_loader) \<and>
   GSgnnLinkPredictionTestDataLoader acm_data [((''paper'', ''reviews'', ''paper''), [0::nat, 1])] 128 4
     = Inl (AssertionError (Etype_not_in_graph (''paper'', ''reviews'', ''paper''))) \<and>
   GSgnnEdgeDataLoader (\<lambda>g f t. f) acm_data [((''paper'', ''reviews'', ''paper''), [0::nat, 1])]
       [10::int, 5] 128 True (Some []) True False [] 5
     = (Inl (AssertionError (Etype_not_in_graph (''paper'', ''reviews'', ''paper'')))
        :: _ + (_, _, _, _, _, _, unit) gs_loader)"
proof -
  have m: "\<exists>k \<in> set (map fst [((''paper'', ''reviews'', ''paper''), [0::nat, 1])]).
             k \<notin> set (canonical_etypes acm_data)"
    by (simp add: acm_data_def)
  from absent_etype_fails[OF m, where world_size = 2 and fanout = "[10::int, 5]" and bsz = 128
         and num_negative_edges = 4 and train_task = True
         and reverse_edge_types_map = "None :: unit option" and exclude_training_targets = False
         and edge_mask_for_gnn_embeddings = "Some ''train_mask''" and construct_feat_ntype = "[]"
         and construct_feat_fanout = 5 and modify_fanout_for_target_etype = "\<lambda>g f t. f"
         and reverse_edge_types_map' = "Some []" and remove_target_edge_type = True]
  show ?thesis by (simp add: acm_data_def)
qed

text \<open>
  The claim as stated (the failure is always the one on the absent edge type) fails for an
  edge loader built with the default arguments \<^verbatim>\<open>remove_target_edge_type=True\<close> and
  \<^verbatim>\<open>reverse_edge_types_map=None\<close>: the failure is the assertion on the reverse map.
\<close>

theorem absent_etype_reverse_map_counterexample:
  "(''paper'', ''reviews'', ''paper'') \<notin> set (canonical_etypes acm_data) \<and>
   GSgnnEdgeDataLoader (\<lambda>g f t. f) acm_data [((''paper'', ''reviews'', ''paper''), [0::nat, 1])]
       [10::int, 5] 128 True None True False [] 5
     = (Inl (AssertionError Reversed_etype_not_provided)
        :: _ + (_, _, _, _, _, _, unit) gs_loader) \<and>
   (AssertionError Reversed_etype_not_provided :: (string, string) py_exception)
     \<noteq> AssertionError (Etype_not_in_graph (''paper'', ''reviews'', ''paper''))"
  by (simp add: GSgnnEdgeDataLoader_def acm_data_def)

declare target_etypes_loop.simps [simp del]

lemma rtrancl_Image_closed: "A \<subseteq> r\<^sup>* `` B \<Longrightarrow> r\<^sup>* `` A \<subseteq> r\<^sup>* `` B"
  by (blast intro: rtrancl_trans)

lemma target_etypes_loop_props:
  assumes "i \<le> length tes"
    and "\<forall>j<i. \<forall>r. map_of rmap (tes ! j) = Some r \<longrightarrow> r \<in> set tes"
  shows "(\<exists>ys. target_etypes_loop rmap tes i = tes @ ys) \<and>
         (\<forall>e \<in> set (target_etypes_loop rmap tes i). \<forall>r. map_of rmap e = Some r \<longrightarrow>
             r \<in> set (target_etypes_loop rmap tes i)) \<and>
         set (target_etypes_loop rmap tes i) \<subseteq> (reverse_edges rmap)\<^sup>* `` set tes"
  using assms
proof (induction rmap tes i rule: target_etypes_loop.induct)
  case (1 rmap tes i)
  show ?case
  proof (cases "i < length tes")
    case False
    with "1.prems" have "i = length tes" by simp
    then have cl: "\<forall>e \<in> set tes. \<forall>r. map_of rmap e = Some r \<longrightarrow> r \<in> set tes"
      using "1.prems"(2) by (auto simp: in_set_conv_nth)
    have "target_etypes_loop rmap tes i = tes"
      using False by (simp add: target_etypes_loop.simps)
    then show ?thesis using cl by auto
  next
    case True
    let ?e = "tes ! i"
    have e_in: "?e \<in> set tes" using True by simp
    show ?thesis
    proof (cases "map_of rmap ?e")
      case None
      then have eq: "target_etypes_loop rmap tes i = target_etypes_loop rmap tes (i + 1)"
        using True by (subst target_etypes_loop.simps) simp
      have pre: "\<forall>j<i + 1. \<forall>r. map_of rmap (tes ! j) = Some r \<longrightarrow> r \<in> set tes"
        using "1.prems"(2) None by (auto simp: less_Suc_eq)
      have "i + 1 \<le> length tes" using True by simp
      from "1.IH"(1)[OF True refl None this pre] show ?thesis unfolding eq .
    next
      case (Some r)
      show ?thesis
      proof (cases "r \<in> set tes")
        case True2: True
        then have eq: "target_etypes_loop rmap tes i = target_etypes_loop rmap tes (i + 1)"
          using True Some by (subst target_etypes_loop.simps) simp
        have pre: "\<forall>j<i + 1. \<forall>r. map_of rmap (tes ! j) = Some r \<longrightarrow> r \<in> set tes"
          using "1.prems"(2) Some True2 by (auto simp: less_Suc_eq)
        have le: "i + 1 \<le> length tes" using True by simp
        have nn: "\<not> r \<notin> set tes" using True2 by simp
        from "1.IH"(3)[OF True refl Some nn le pre] show ?thesis unfolding eq .
      next
        case False
        then have eq: "target_etypes_loop rmap tes i = target_etypes_loop rmap (tes @ [r]) (i + 1)"
          using True Some by (subst target_etypes_loop.simps) simp
        have pre: "\<forall>j<i + 1. \<forall>r'. map_of rmap ((tes @ [r]) ! j) = Some r' \<longrightarrow> r' \<in> set (tes @ [r])"
          using "1.prems"(2) Some True by (auto simp: less_Suc_eq nth_append)
        have le: "i + 1 \<le> length (tes @ [r])" using True by simp
        note IH = "1.IH"(2)[OF True refl Some False le pre]
        have "(?e, r) \<in> reverse_edges rmap" using Some by (simp add: reverse_edges_def)
        then have "r \<in> (reverse_edges rmap)\<^sup>* `` set tes" using e_in by auto
        then have "set (tes @ [r]) \<subseteq> (reverse_edges rmap)\<^sup>* `` set tes" by auto
        then have "(reverse_edges rmap)\<^sup>* `` set (tes @ [r]) \<subseteq> (reverse_edges rmap)\<^sup>* `` set tes"
          by (rule rtrancl_Image_closed)
        with IH show ?thesis unfolding eq by auto
      qed
    qed
  qed
qed

lemma Image_rtrancl_closed_set:
  assumes "K \<subseteq> S" and "\<forall>e \<in> S. \<forall>r. (e, r) \<in> E \<longrightarrow> r \<in> S"
  shows "E\<^sup>* `` K \<subseteq> S"
proof
  fix x assume "x \<in> E\<^sup>* `` K"
  then obtain k where k: "k \<in> K" and kx: "(k, x) \<in> E\<^sup>*" by auto
  from kx have "k \<in> S \<longrightarrow> x \<in> S"
    by (induction rule: rtrancl_induct) (use assms(2) in auto)
  with k assms(1) show "x \<in> S" by auto
qed

lemma remove_target_etypes_closure:
  "set (remove_target_etypes rmap ks) = (reverse_edges rmap)\<^sup>* `` set ks"
proof -
  let ?R = "remove_target_etypes rmap ks"
  from target_etypes_loop_props[of 0 ks rmap]
  have pre: "\<exists>ys. ?R = ks @ ys"
    and cl: "\<forall>e \<in> set ?R. \<forall>r. map_of rmap e = Some r \<longrightarrow> r \<in> set ?R"
    and sub: "set ?R \<subseteq> (reverse_edges rmap)\<^sup>* `` set ks"
    unfolding remove_target_etypes_def by simp_all
  from pre have "set ks \<subseteq> set ?R" by auto
  moreover from cl have "\<forall>e \<in> set ?R. \<forall>r. (e, r) \<in> reverse_edges rmap \<longrightarrow> r \<in> set ?R"
    by (simp add: reverse_edges_def)
  ultimately have "(reverse_edges rmap)\<^sup>* `` set ks \<subseteq> set ?R"
    by (rule Image_rtrancl_closed_set)
  with sub show ?thesis by blast
qed

lemma remove_target_etypes_prefix:
  "\<exists>ys. remove_target_etypes rmap ks = ks @ ys"
  using target_etypes_loop_props[of 0 ks rmap] unfolding remove_target_etypes_def by simp

lemma remove_target_etypes_no_chain:
  assumes "\<forall>k \<in> set ks. \<forall>r r'. map_of rmap k = Some r \<longrightarrow> map_of rmap r = Some r' \<longrightarrow>
        r' \<in> set ks \<or> (\<exists>k' \<in> set ks. map_of rmap k' = Some r')"
  shows "set (remove_target_etypes rmap ks) = set ks \<union> {r. \<exists>k \<in> set ks. map_of rmap k = Some r}"
proof -
  let ?S = "set ks \<union> {r. \<exists>k \<in> set ks. map_of rmap k = Some r}"
  have "\<forall>e \<in> ?S. \<forall>r. (e, r) \<in> reverse_edges rmap \<longrightarrow> r \<in> ?S"
    using assms unfolding reverse_edges_def by blast
  then have "(reverse_edges rmap)\<^sup>* `` set ks \<subseteq> ?S"
    by (intro Image_rtrancl_closed_set) auto
  moreover have "?S \<subseteq> (reverse_edges rmap)\<^sup>* `` set ks"
    unfolding reverse_edges_def by auto
  ultimately show ?thesis
    unfolding remove_target_etypes_closure by blast
qed

lemma edge_loader_fanout:
  assumes "GSgnnEdgeDataLoader modify_fanout_for_target_etype gsdata target_idx fanout bsz
               train_task (Some rmap) True exclude_training_targets
               construct_feat_ntype construct_feat_fanout = Inr self"
  shows "dl_fanout (ld_dataloader self) =
           modify_fanout_for_target_etype gsdata fanout
             (remove_target_etypes rmap (map fst target_idx))"
  using assms
  by (auto simp: GSgnnEdgeDataLoader_def edge_prepare_dataloader_def split: sum.splits)

text \<open>
  The list \<^verbatim>\<open>target_etypes\<close> of an edge dataloader built with
  \<^verbatim>\<open>remove_target_edge_type=True\<close> and a reverse map.  The fanout given to the neighbour
  sampler of the GNN layers is the caller's fanout modified for that list.  The list starts
  with the target edge types, in their order, and its members are the edge types reachable
  from a target edge type by following the reverse map any number of times.  Whenever the
  reverse of a target type's reverse, if registered, is a target type or the reverse of one
  (a symmetric map, or a map that registers target types only), the list holds exactly the
  target edge types and the mapped reverse of every target type that has an entry in the
  reverse map.
\<close>

theorem edge_loader_masked_etypes:
  assumes "GSgnnEdgeDataLoader modify_fanout_for_target_etype gsdata target_idx fanout bsz
               train_task (Some rmap) True exclude_training_targets
               construct_feat_ntype construct_feat_fanout = Inr self"
  shows "dl_fanout (ld_dataloader self) =
           modify_fanout_for_target_etype gsdata fanout
             (remove_target_etypes rmap (map fst target_idx)) \<and>
         take (length target_idx) (remove_target_etypes rmap (map fst target_idx))
           = map fst target_idx \<and>
         set (remove_target_etypes rmap (map fst target_idx))
           = (reverse_edges rmap)\<^sup>* `` fst ` set target_idx \<and>
         ((\<forall>k \<in> fst ` set target_idx. \<forall>r r'.
              map_of rmap k = Some r \<longrightarrow> map_of rmap r = Some r' \<longrightarrow>
              r' \<in> fst ` set target_idx \<or> (\<exists>k' \<in> fst ` set target_idx. map_of rmap k' = Some r')) \<longrightarrow>
          set (remove_target_etypes rmap (map fst target_idx))
            = fst ` set target_idx \<union> {r. \<exists>k \<in> fst ` set target_idx. map_of rmap k = Some r})"
proof -
  have "take (length target_idx) (remove_target_etypes rmap (map fst target_idx))
           = map fst target_idx"
    using remove_target_etypes_prefix[of rmap "map fst target_idx"] by auto
  moreover have "set (remove_target_etypes rmap (map fst target_idx))
           = (reverse_edges rmap)\<^sup>* `` fst ` set target_idx"
    using remove_target_etypes_closure[of rmap "map fst target_idx"] by simp
  ultimately show ?thesis
    using edge_loader_fanout[OF assms] remove_target_etypes_no_chain[of "map fst target_idx" rmap]
    by simp
qed

theorem edge_loader_masked_etypes_witness:
  "(\<exists>self. GSgnnEdgeDataLoader (\<lambda>g f t. (fst f, t)) acm_data
              [((''author'', ''writing'', ''paper''), [0::nat, 1, 2])] ([10::int, 5], []) 128 True
              (Some [((''author'', ''writing'', ''paper''), (''paper'', ''rev-writing'', ''author'')),
                     ((''paper'', ''rev-writing'', ''author''), (''author'', ''writing'', ''paper''))])
              True False [] 5
            = (Inr self :: _ + (_, _, _, _, _, _, unit) gs_loader) \<and>
          dl_fanout (ld_dataloader self) =
            ([10, 5], [(''author'', ''writing'', ''paper''), (''paper'', ''rev-writing'', ''author'')])) \<and>
   set (remove_target_etypes
          [((''author'', ''writing'', ''paper''), (''paper'', ''rev-writing'', ''author'')),
           ((''paper'', ''rev-writing'', ''author''), (''author'', ''writing'', ''paper''))]
          (map fst [((''author'', ''writing'', ''paper''), [0::nat, 1, 2])]))
     = {(''author'', ''writing'', ''paper''), (''paper'', ''rev-writing'', ''author'')} \<and>
   set (remove_target_etypes
          [((''author'', ''writing'', ''paper''), (''paper'', ''rev-writing'', ''author'')),
           ((''paper'', ''rev-writing'', ''author''), (''author'', ''writing'', ''paper''))]
          (map fst [((''author'', ''writing'', ''paper''), [0::nat, 1, 2])]))
     = fst ` set [((''author'', ''writing'', ''paper''), [0::nat, 1, 2])] \<union>
       {r. \<exists>k \<in> fst ` set [((''author'', ''writing'', ''paper''), [0::nat, 1, 2])].
             map_of [((''author'', ''writing'', ''paper''), (''paper'', ''rev-writing'', ''author'')),
                     ((''paper'', ''rev-writing'', ''author''), (''author'', ''writing'', ''paper''))] k
               = Some r}"
proof -
  let ?rmap = "[((''author'', ''writing'', ''paper''), (''paper'', ''rev-writing'', ''author'')),
                ((''paper'', ''rev-writing'', ''author''), (''author'', ''writing'', ''paper''))]"
  let ?tidx = "[((''author'', ''writing'', ''paper''), [0::nat, 1, 2])]"
  let ?c = "GSgnnEdgeDataLoader (\<lambda>g f t. (fst f, t)) acm_data ?tidx ([10::int, 5], []) 128 True
              (Some ?rmap) True False [] 5
            :: _ + (_, _, _, _, _, _, unit) gs_loader"
  have c: "?c = Inr (projr ?c)"
    by (simp add: GSgnnEdgeDataLoader_def acm_data_def make_construct_feat_sampler_def)
  have r: "remove_target_etypes ?rmap (map fst ?tidx)
             = [(''author'', ''writing'', ''paper''), (''paper'', ''rev-writing'', ''author'')]"
    by (simp add: remove_target_etypes_def target_etypes_loop.simps)
  have nochain: "\<forall>k \<in> fst ` set ?tidx. \<forall>r r'.
              map_of ?rmap k = Some r \<longrightarrow> map_of ?rmap r = Some r' \<longrightarrow>
              r' \<in> fst ` set ?tidx \<or> (\<exists>k' \<in> fst ` set ?tidx. map_of ?rmap k' = Some r')"
    by simp
  note T = edge_loader_masked_etypes[OF c]
  from T have f: "dl_fanout (ld_dataloader (projr ?c))
                    = (fst ([10::int, 5], [] :: (string \<times> string \<times> string) list),
                       remove_target_etypes ?rmap (map fst ?tidx))"
    by (rule conjunct1)
  from T nochain
  have st: "set (remove_target_etypes ?rmap (map fst ?tidx))
            = fst ` set ?tidx \<union> {r. \<exists>k \<in> fst ` set ?tidx. map_of ?rmap k = Some r}"
    by blast
  have e: "\<exists>self. ?c = Inr self \<and> dl_fanout (ld_dataloader self) =
            ([10, 5], [(''author'', ''writing'', ''paper''), (''paper'', ''rev-writing'', ''author'')])"
    using c f unfolding r by (intro exI[of _ "projr ?c"]) simp
  have "set (remove_target_etypes ?rmap (map fst ?tidx))
     = {(''author'', ''writing'', ''paper''), (''paper'', ''rev-writing'', ''author'')}"
    unfolding r by auto
  with e st show ?thesis by blast
qed

text \<open>
  The loop visits the types it has appended: for a map that registers a reverse for a
  reverse, with target \<^verbatim>\<open>cites\<close>, \<^verbatim>\<open>cites \<mapsto> cited-by\<close> and \<^verbatim>\<open>cited-by \<mapsto> mentions\<close>, the list
  also holds \<^verbatim>\<open>mentions\<close>, which is neither a target type nor the reverse of one.
\<close>

theorem remove_target_etypes_chain:
  "remove_target_etypes
      [((''a'', ''cites'', ''b''), (''b'', ''cited-by'', ''a'')),
       ((''b'', ''cited-by'', ''a''), (''a'', ''mentions'', ''b''))]
      (map fst [((''a'', ''cites'', ''b''), [0::nat])])
     = [(''a'', ''cites'', ''b''), (''b'', ''cited-by'', ''a''), (''a'', ''mentions'', ''b'')] \<and>
   (''a'', ''mentions'', ''b'') \<notin> fst ` set [((''a'', ''cites'', ''b''), [0::nat])] \<and>
   (''a'', ''mentions'', ''b'') \<noteq> (''b'', ''cited-by'', ''a'') \<and>
   map_of [((''a'', ''cites'', ''b''), (''b'', ''cited-by'', ''a'')),
           ((''b'', ''cited-by'', ''a''), (''a'', ''mentions'', ''b''))] (''a'', ''cites'', ''b'')
     = Some (''b'', ''cited-by'', ''a'')"
  by (simp add: remove_target_etypes_def target_etypes_loop.simps)

text \<open>
  Claim C4.  An edge dataloader built with \<^verbatim>\<open>remove_target_edge_type=True\<close> and a reverse
  map is to keep every edge of a target edge type, and of its registered reverse, out of
  every block it produces.  The constructor masks these types in the fanout of the GNN
  layers only; the feature-reconstruction sampler is built from the dataset, the node types
  and its own fanout, without the list.  On the citation graph, with target type
  \<^verbatim>\<open>(author, writing, paper)\<close>, its reverse \<^verbatim>\<open>(paper, rev-writing, author)\<close> registered and
  features to be constructed for \<^verbatim>\<open>author\<close>: the loader is built; the reverse type is in the
  list \<^verbatim>\<open>target_etypes\<close> given to the fanout modification; the reconstruction sampler samples
  that very type, with fanout 5; and \<^verbatim>\<open>__next__\<close> puts the block sampled with this fanout in
  front of the blocks of the batch.
\<close>

theorem edge_loader_reconstruction_unmasked:
  "(case GSgnnEdgeDataLoader modify_fanout_for_target_etype acm_data
           [((''author'', ''writing'', ''paper''), [0::nat, 1, 2])] fanout 128 True
           (Some [((''author'', ''writing'', ''paper''), (''paper'', ''rev-writing'', ''author'')),
                  ((''paper'', ''rev-writing'', ''author''), (''author'', ''writing'', ''paper''))])
           True False [''author''] 5 of
      Inl e \<Rightarrow> False
    | Inr self \<Rightarrow>
        dl_fanout (ld_dataloader self) =
          modify_fanout_for_target_etype acm_data fanout
            [(''author'', ''writing'', ''paper''), (''paper'', ''rev-writing'', ''author'')] \<and>
        (case ld_construct_feat_sampler self of
           None \<Rightarrow> False
         | Some s \<Rightarrow>
             subg_etypes s = [(''paper'', ''rev-writing'', ''author'')] \<and>
             rs_fanout s (''paper'', ''rev-writing'', ''author'') = Some 5 \<and>
             rs_fanout s (''author'', ''writing'', ''paper'') = Some 0 \<and>
             edge_loader_next g
                 (loader_iter_epoch [(input_nodes, batch_graph, block # blocks)] self)
               = Inr ((srcnodes_nid g
                         (to_block g (sample_neighbors g input_nodes (rs_fanout s)) input_nodes),
                       batch_graph,
                       to_block g (sample_neighbors g input_nodes (rs_fanout s)) input_nodes
                         # block # blocks),
                      loader_iter_epoch [] self)))"
  by (simp add: GSgnnEdgeDataLoader_def acm_data_def make_construct_feat_sampler_def
                ReconstructedNeighborSampler_def collect_etypes_def collect_etype_def
                edge_prepare_dataloader_def remove_target_etypes_def target_etypes_loop.simps
                edge_loader_next_def loader_iter_epoch_def dl_iter_def dl_next_def
                construct_feat_def sample_def list_insert_def Let_def)

text \<open>
  Claim C6.  For the edge, link-prediction and node dataloaders configured with a
  feature-reconstruction sampler: when the distributed loader yields a batch whose block
  list is non-empty, \<^verbatim>\<open>__next__\<close> returns the block list with the sampled reconstruction
  block at position 0 followed by the original blocks, and the input nodes of the
  reconstruction sample in place of the batch's input nodes, the other components
  unchanged; when the block list is empty, it returns the batch as it is.
\<close>

theorem next_prepends_reconstruction_block:
  "(ld_construct_feat_sampler eself = Some s \<and>
    dl_pending (ld_dataloader eself) = (input_nodes, batch_graph, blocks) # rest \<longrightarrow>
      edge_loader_next g eself =
        Inr ((if blocks \<noteq> []
              then (snd (sample g s input_nodes), batch_graph,
                    fst (sample g s input_nodes) # blocks)
              else (input_nodes, batch_graph, blocks)),
             eself\<lparr>ld_dataloader := (ld_dataloader eself)\<lparr>dl_pending := rest\<rparr>\<rparr>)) \<and>
   (ld_construct_feat_sampler lself = Some s \<and>
    dl_pending (ld_dataloader lself) = (input_nodes, pos_graph, neg_graph, blocks) # lrest \<longrightarrow>
      lp_loader_next g lself =
        Inr ((if blocks \<noteq> []
              then (snd (sample g s input_nodes), pos_graph, neg_graph,
                    fst (sample g s input_nodes) # blocks)
              else (input_nodes, pos_graph, neg_graph, blocks)),
             lself\<lparr>ld_dataloader := (ld_dataloader lself)\<lparr>dl_pending := lrest\<rparr>\<rparr>)) \<and>
   (ld_construct_feat_sampler nself = Some s \<and>
    dl_pending (ld_dataloader nself) = (input_nodes, seeds, blocks) # nrest \<longrightarrow>
      node_loader_next g nself =
        Inr ((if blocks \<noteq> []
              then (snd (sample g s input_nodes), seeds, fst (sample g s input_nodes) # blocks)
              else (input_nodes, seeds, blocks)),
             nself\<lparr>ld_dataloader := (ld_dataloader nself)\<lparr>dl_pending := nrest\<rparr>\<rparr>))"
  by (simp add: edge_loader_next_def lp_loader_next_def node_loader_next_def dl_next_def
                construct_feat_Some)

lemma demo_loader_sel:
  "ld_construct_feat_sampler (demo_loader sampler pending) = sampler"
  "dl_pending (ld_dataloader (demo_loader sampler pending)) = pending"
  "(demo_loader sampler pending)
     \<lparr>ld_dataloader := (ld_dataloader (demo_loader sampler pending))\<lparr>dl_pending := rest\<rparr>\<rparr>
   = demo_loader sampler rest"
  "ld_target_idx (demo_loader sampler pending) = [((''author'', ''writing'', ''paper''), [0, 1, 2])]"
  by (simp_all add: demo_loader_def)

theorem next_prepends_reconstruction_block_witness:
  "\<exists>s. ReconstructedNeighborSampler acm_data [''author''] 5 = Inr s \<and>
      edge_loader_next demo_ops (demo_loader (Some s) [([1, 2], ''g1'', [[7::nat]]), ([3], ''g2'', [])])
        = Inr (([1, 2, 101, 102], ''g1'', [[1, 2, 101, 102], [7]]),
               demo_loader (Some s) [([3], ''g2'', [])]) \<and>
      edge_loader_next demo_ops (demo_loader (Some s) [([3], ''g2'', [])])
        = Inr (([3], ''g2'', []), demo_loader (Some s) []) \<and>
      lp_loader_next demo_ops (demo_loader (Some s) [([1, 2], ''pos'', ''neg'', [[7::nat]])])
        = Inr (([1, 2, 101, 102], ''pos'', ''neg'', [[1, 2, 101, 102], [7]]),
               demo_loader (Some s) []) \<and>
      node_loader_next demo_ops (demo_loader (Some s) [([1, 2], [1::nat], [[7::nat]])])
        = Inr (([1, 2, 101, 102], [1], [[1, 2, 101, 102], [7]]), demo_loader (Some s) [])"
proof -
  have f: "(5::int) > 0 \<or> (5::int) = - 1" by simp
  from reconstructed_sampler_init[OF f, of acm_data "[''author'']"]
  obtain s where s: "ReconstructedNeighborSampler acm_data [''author''] 5 = Inr s"
    by (auto simp: acm_unreconstructable)
  have a: "edge_loader_next demo_ops
             (demo_loader (Some s) [([1, 2], ''g1'', [[7::nat]]), ([3], ''g2'', [])])
             = Inr (([1, 2, 101, 102], ''g1'', [[1, 2, 101, 102], [7]]),
                    demo_loader (Some s) [([3], ''g2'', [])])"
    using next_prepends_reconstruction_block
            [where eself = "demo_loader (Some s) [([1, 2], ''g1'', [[7::nat]]), ([3], ''g2'', [])]"
               and s = s and input_nodes = "[1, 2]" and batch_graph = "''g1''" and blocks = "[[7]]"
               and rest = "[([3], ''g2'', [])]" and g = demo_ops, THEN conjunct1]
    by (simp add: sample_def demo_ops_def Let_def demo_loader_sel)
  have b: "edge_loader_next demo_ops (demo_loader (Some s) [([3], ''g2'', [])])
             = Inr (([3], ''g2'', []), demo_loader (Some s) [])"
    using next_prepends_reconstruction_block
            [where eself = "demo_loader (Some s) [([3], ''g2'', [])]" and s = s
               and input_nodes = "[3]" and batch_graph = "''g2''" and blocks = "[]"
               and rest = "[]" and g = demo_ops, THEN conjunct1]
    by (simp add: demo_loader_sel)
  have c: "lp_loader_next demo_ops (demo_loader (Some s) [([1, 2], ''pos'', ''neg'', [[7::nat]])])
        = Inr (([1, 2, 101, 102], ''pos'', ''neg'', [[1, 2, 101, 102], [7]]),
               demo_loader (Some s) [])"
    using next_prepends_reconstruction_block
            [where lself = "demo_loader (Some s) [([1, 2], ''pos'', ''neg'', [[7::nat]])]" and s = s
               and input_nodes = "[1, 2]" and pos_graph = "''pos''" and neg_graph = "''neg''"
               and blocks = "[[7]]" and lrest = "[]" and g = demo_ops,
             THEN conjunct2, THEN conjunct1]
    by (simp add: sample_def demo_ops_def Let_def demo_loader_sel)
  have d: "node_loader_next demo_ops (demo_loader (Some s) [([1, 2], [1::nat], [[7::nat]])])
        = Inr (([1, 2, 101, 102], [1], [[1, 2, 101, 102], [7]]), demo_loader (Some s) [])"
    using next_prepends_reconstruction_block
            [where nself = "demo_loader (Some s) [([1, 2], [1::nat], [[7::nat]])]" and s = s
               and input_nodes = "[1, 2]" and seeds = "[1]"
               and blocks = "[[7]]" and nrest = "[]" and g = demo_ops,
             THEN conjunct2, THEN conjunct2]
    by (simp add: sample_def demo_ops_def Let_def demo_loader_sel)
  from s a b c d show ?thesis by blast
qed

text \<open>
  The target index through construction and iteration.  A link-prediction or node
  dataloader built with \<^verbatim>\<open>train_task=True\<close> has every target ID list replaced by its trimmed
  list, of a length divisible by the number of workers, before iteration begins, and built
  with \<^verbatim>\<open>train_task=False\<close> it keeps the caller's lists unchanged.  The edge dataloader and
  the link-prediction test dataloader keep the caller's lists unchanged whatever
  \<^verbatim>\<open>train_task\<close> is.  \<^verbatim>\<open>__iter__\<close> and \<^verbatim>\<open>__next__\<close> leave the target index of a loader as it
  is.
\<close>

theorem target_idx_trimmed_once:
  "(GSgnnLinkPredictionDataLoader world_size gsdata target_idx fanout bsz num_negative_edges
        train_task reverse_edge_types_map exclude_training_targets
        edge_mask_for_gnn_embeddings construct_feat_ntype construct_feat_fanout = Inr lself \<longrightarrow>
      ld_target_idx lself =
        (if train_task then map (\<lambda>(etype, ids). (etype, trim_data world_size ids)) target_idx
         else target_idx) \<and>
      dl_target_idxs (ld_dataloader lself) = ld_target_idx lself \<and>
      (train_task \<longrightarrow> (\<forall>(etype, ids) \<in> set (ld_target_idx lself). world_size dvd length ids))) \<and>
   (GSgnnNodeDataLoader world_size gsdata ntarget_idx fanout bsz train_task
        construct_feat_ntype construct_feat_fanout = Inr nself \<longrightarrow>
      ld_target_idx nself =
        (if train_task then map (\<lambda>(ntype, ids). (ntype, trim_data world_size ids)) ntarget_idx
         else ntarget_idx) \<and>
      dl_target_idxs (ld_dataloader nself) = ld_target_idx nself \<and>
      (train_task \<longrightarrow> (\<forall>(ntype, ids) \<in> set (ld_target_idx nself). world_size dvd length ids))) \<and>
   (GSgnnEdgeDataLoader modify_fanout_for_target_etype gsdata target_idx fanout bsz
        train_task reverse_edge_types_map' remove_target_edge_type
        exclude_training_targets construct_feat_ntype construct_feat_fanout = Inr eself \<longrightarrow>
      ld_target_idx eself = target_idx \<and> dl_target_idxs (ld_dataloader eself) = target_idx) \<and>
   (GSgnnLinkPredictionTestDataLoader gsdata target_idx bsz num_negative_edges = Inr tself \<longrightarrow>
      tl_target_idx tself = target_idx) \<and>
   ld_target_idx (loader_iter_epoch epoch self) = ld_target_idx self \<and>
   (edge_loader_next g self1 = Inr (batch1, self1') \<longrightarrow> ld_target_idx self1' = ld_target_idx self1) \<and>
   (lp_loader_next g self2 = Inr (batch2, self2') \<longrightarrow> ld_target_idx self2' = ld_target_idx self2) \<and>
   (node_loader_next g self3 = Inr (batch3, self3') \<longrightarrow> ld_target_idx self3' = ld_target_idx self3)"
proof (intro conjI impI)
  assume a: "GSgnnLinkPredictionDataLoader world_size gsdata target_idx fanout bsz num_negative_edges
        train_task reverse_edge_types_map exclude_training_targets
        edge_mask_for_gnn_embeddings construct_feat_ntype construct_feat_fanout = Inr lself"
  note L = lp_loader_target_idx[OF a]
  show "ld_target_idx lself =
        (if train_task then map (\<lambda>(etype, ids). (etype, trim_data world_size ids)) target_idx
         else target_idx)" using L by simp
  show "dl_target_idxs (ld_dataloader lself) = ld_target_idx lself" using L by simp
  show "\<forall>(etype, ids) \<in> set (ld_target_idx lself). world_size dvd length ids" if train_task
    using L that by (auto simp: trim_data_dvd)
next
  assume a: "GSgnnNodeDataLoader world_size gsdata ntarget_idx fanout bsz train_task
        construct_feat_ntype construct_feat_fanout = Inr nself"
  note L = node_loader_target_idx[OF a]
  show "ld_target_idx nself =
        (if train_task then map (\<lambda>(ntype, ids). (ntype, trim_data world_size ids)) ntarget_idx
         else ntarget_idx)" using L by simp
  show "dl_target_idxs (ld_dataloader nself) = ld_target_idx nself" using L by simp
  show "\<forall>(ntype, ids) \<in> set (ld_target_idx nself). world_size dvd length ids" if train_task
    using L that by (auto simp: trim_data_dvd)
next
  assume a: "GSgnnEdgeDataLoader modify_fanout_for_target_etype gsdata target_idx fanout bsz
        train_task reverse_edge_types_map' remove_target_edge_type
        exclude_training_targets construct_feat_ntype construct_feat_fanout = Inr eself"
  note L = edge_loader_target_idx[OF a]
  show "ld_target_idx eself = target_idx" using L by simp
  show "dl_target_idxs (ld_dataloader eself) = target_idx" using L by simp
next
  assume "GSgnnLinkPredictionTestDataLoader gsdata target_idx bsz num_negative_edges = Inr tself"
  then show "tl_target_idx tself = target_idx" by (rule test_loader_target_idx)
next
  show "ld_target_idx (loader_iter_epoch epoch self) = ld_target_idx self"
    by (rule iter_target_idx)
next
  assume "edge_loader_next g self1 = Inr (batch1, self1')"
  then show "ld_target_idx self1' = ld_target_idx self1" by (rule edge_next_target_idx)
next
  assume "lp_loader_next g self2 = Inr (batch2, self2')"
  then show "ld_target_idx self2' = ld_target_idx self2" by (rule lp_next_target_idx)
next
  assume "node_loader_next g self3 = Inr (batch3, self3')"
  then show "ld_target_idx self3' = ld_target_idx self3" by (rule node_next_target_idx)
qed

text \<open>
  Claim C7.  Every dataloader built with \<^verbatim>\<open>train_task=True\<close> is to trim each target ID
  list, before iteration begins, to a length divisible by the number of workers.  The
  link-prediction and node loaders do (\<open>target_idx_trimmed_once\<close>); the edge loader does
  not: built with \<^verbatim>\<open>train_task=True\<close> over three target edges, with two workers, it keeps
  the three edges in its target index and hands them to the distributed loader, with
  \<^verbatim>\<open>train_task\<close> used for the shuffle flag only.
\<close>

theorem edge_loader_train_task_untrimmed:
  "(case GSgnnEdgeDataLoader (\<lambda>g f t. f) acm_data
           [((''author'', ''writing'', ''paper''), [0::nat, 1, 2])] [10::int, 5] 128 True
           (Some []) True False [] 5
         :: _ + (_, _, _, _, _, _, unit) gs_loader of
      Inl e \<Rightarrow> False
    | Inr self \<Rightarrow>
        ld_target_idx self = [((''author'', ''writing'', ''paper''), [0, 1, 2])] \<and>
        dl_target_idxs (ld_dataloader self) = [((''author'', ''writing'', ''paper''), [0, 1, 2])] \<and>
        dl_shuffle (ld_dataloader self) \<and>
        \<not> (2::nat) dvd length [0::nat, 1, 2])"
  by (simp add: GSgnnEdgeDataLoader_def acm_data_def make_construct_feat_sampler_def
                edge_prepare_dataloader_def remove_target_etypes_def target_etypes_loop.simps)


theorem target_idx_trimmed_once_witness:
  "(\<exists>lself. GSgnnLinkPredictionDataLoader 2 acm_data
               [((''author'', ''writing'', ''paper''), [0::nat, 1, 2])] [10::int, 5] 128 4 True
               (None :: unit option) False (Some ''train_mask'') [] 5
             = (Inr lself :: _ + (_, _, _, _, _, _, unit) gs_loader) \<and>
           ld_target_idx lself = [((''author'', ''writing'', ''paper''), [0, 1])] \<and>
           dl_target_idxs (ld_dataloader lself) = [((''author'', ''writing'', ''paper''), [0, 1])]) \<and>
   (\<exists>lself. GSgnnLinkPredictionDataLoader 2 acm_data
               [((''author'', ''writing'', ''paper''), [0::nat, 1, 2])] [10::int, 5] 128 4 False
               (None :: unit option) False (Some ''train_mask'') [] 5
             = (Inr lself :: _ + (_, _, _, _, _, _, unit) gs_loader) \<and>
           ld_target_idx lself = [((''author'', ''writing'', ''paper''), [0, 1, 2])]) \<and>
   (\<exists>nself. GSgnnNodeDataLoader 2 acm_data [(''paper'', [0::nat, 1, 2, 3, 4])] [10::int, 5] 128 True [] 5
             = (Inr nself :: (string, string) py_exception + (_, _, _, _, _, unit, unit) gs_loader) \<and>
           ld_target_idx nself = [(''paper'', [0, 1, 2, 3])]) \<and>
   (\<exists>eself. GSgnnEdgeDataLoader (\<lambda>g f t. f) acm_data
               [((''author'', ''writing'', ''paper''), [0::nat, 1, 2])] [10::int, 5] 128 True
               (Some []) True False [] 5
             = (Inr eself :: _ + (_, _, _, _, _, _, unit) gs_loader) \<and>
           ld_target_idx eself = [((''author'', ''writing'', ''paper''), [0, 1, 2])]) \<and>
   (\<exists>tself. GSgnnLinkPredictionTestDataLoader acm_data
               [((''author'', ''writing'', ''paper''), [0::nat, 1, 2])] 128 4 = Inr tself \<and>
           tl_target_idx tself = [((''author'', ''writing'', ''paper''), [0, 1, 2])]) \<and>
   edge_loader_next demo_ops (demo_loader None [([3::nat], ''g2'', [] :: nat list list)])
     = Inr (([3], ''g2'', []), demo_loader None []) \<and>
   ld_target_idx (demo_loader None ([] :: (nat list \<times> string \<times> nat list list) list))
     = ld_target_idx (demo_loader None [([3::nat], ''g2'', [] :: nat list list)]) \<and>
   lp_loader_next demo_ops (demo_loader None [([3::nat], ''p'', ''n'', [] :: nat list list)])
     = Inr (([3], ''p'', ''n'', []), demo_loader None []) \<and>
   ld_target_idx (demo_loader None ([] :: (nat list \<times> string \<times> string \<times> nat list list) list))
     = ld_target_idx (demo_loader None [([3::nat], ''p'', ''n'', [] :: nat list list)]) \<and>
   node_loader_next demo_ops (demo_loader None [([3::nat], [3::nat], [] :: nat list list)])
     = Inr (([3], [3], []), demo_loader None []) \<and>
   ld_target_idx (demo_loader None ([] :: (nat list \<times> nat list \<times> nat list list) list))
     = ld_target_idx (demo_loader None [([3::nat], [3::nat], [] :: nat list list)])"
proof -
  let ?tidx = "[((''author'', ''writing'', ''paper''), [0::nat, 1, 2])]"
  let ?lp = "\<lambda>tt. GSgnnLinkPredictionDataLoader 2 acm_data ?tidx [10::int, 5] 128 4 tt
               (None :: unit option) False (Some ''train_mask'') [] 5
             :: _ + (_, _, _, _, _, _, unit) gs_loader"
  let ?nd = "GSgnnNodeDataLoader 2 acm_data [(''paper'', [0::nat, 1, 2, 3, 4])] [10::int, 5] 128 True [] 5
             :: (string, string) py_exception + (_, _, _, _, _, unit, unit) gs_loader"
  let ?ed = "GSgnnEdgeDataLoader (\<lambda>g f t. f) acm_data ?tidx [10::int, 5] 128 True
               (Some []) True False [] 5 :: _ + (_, _, _, _, _, _, unit) gs_loader"
  let ?tl = "GSgnnLinkPredictionTestDataLoader acm_data ?tidx 128 4"
  have lp1: "?lp True = Inr (projr (?lp True))" and lp0: "?lp False = Inr (projr (?lp False))"
    by (simp_all add: GSgnnLinkPredictionDataLoader_def acm_data_def
          make_construct_feat_sampler_def lp_prepare_dataloader_def Let_def)
  have nd: "?nd = Inr (projr ?nd)"
    by (simp add: GSgnnNodeDataLoader_def acm_data_def make_construct_feat_sampler_def
          node_prepare_dataloader_def Let_def)
  have ed: "?ed = Inr (projr ?ed)"
    by (simp add: GSgnnEdgeDataLoader_def acm_data_def make_construct_feat_sampler_def)
  have tl: "?tl = Inr (projr ?tl)"
    by (simp add: GSgnnLinkPredictionTestDataLoader_def acm_data_def)
  have e1: "edge_loader_next demo_ops (demo_loader None [([3::nat], ''g2'', [] :: nat list list)])
     = Inr (([3], ''g2'', []), demo_loader None [])"
    by (simp add: edge_loader_next_def dl_next_def demo_loader_sel construct_feat_None)
  have e2: "lp_loader_next demo_ops (demo_loader None [([3::nat], ''p'', ''n'', [] :: nat list list)])
     = Inr (([3], ''p'', ''n'', []), demo_loader None [])"
    by (simp add: lp_loader_next_def dl_next_def demo_loader_sel construct_feat_None)
  have e3: "node_loader_next demo_ops (demo_loader None [([3::nat], [3::nat], [] :: nat list list)])
     = Inr (([3], [3], []), demo_loader None [])"
    by (simp add: node_loader_next_def dl_next_def demo_loader_sel construct_feat_None)
  have a1: "ld_target_idx (projr (?lp True)) = [((''author'', ''writing'', ''paper''), [0, 1])] \<and>
            dl_target_idxs (ld_dataloader (projr (?lp True)))
              = [((''author'', ''writing'', ''paper''), [0, 1])]"
    using target_idx_trimmed_once[THEN conjunct1, rule_format, OF lp1]
    by (simp add: trim_data_def)
  have a0: "ld_target_idx (projr (?lp False)) = ?tidx"
    using target_idx_trimmed_once[THEN conjunct1, rule_format, OF lp0] by simp
  have an: "ld_target_idx (projr ?nd) = [(''paper'', [0, 1, 2, 3])]"
    using target_idx_trimmed_once[THEN conjunct2, THEN conjunct1, rule_format, OF nd]
    by (simp add: trim_data_def)
  have ae: "ld_target_idx (projr ?ed) = ?tidx"
    using target_idx_trimmed_once[THEN conjunct2, THEN conjunct2, THEN conjunct1, rule_format, OF ed]
    by simp
  have at: "tl_target_idx (projr ?tl) = ?tidx"
    using target_idx_trimmed_once
            [THEN conjunct2, THEN conjunct2, THEN conjunct2, THEN conjunct1, rule_format, OF tl]
    by simp
  have f1: "ld_target_idx (demo_loader None ([] :: (nat list \<times> string \<times> nat list list) list))
     = ld_target_idx (demo_loader None [([3::nat], ''g2'', [] :: nat list list)])"
    using target_idx_trimmed_once
            [THEN conjunct2, THEN conjunct2, THEN conjunct2, THEN conjunct2, THEN conjunct2,
             THEN conjunct1, rule_format, OF e1] .
  have f2: "ld_target_idx (demo_loader None ([] :: (nat list \<times> string \<times> string \<times> nat list list) list))
     = ld_target_idx (demo_loader None [([3::nat], ''p'', ''n'', [] :: nat list list)])"
    using target_idx_trimmed_once
            [THEN conjunct2, THEN conjunct2, THEN conjunct2, THEN conjunct2, THEN conjunct2,
             THEN conjunct2, THEN conjunct1, rule_format, OF e2] .
  have f3: "ld_target_idx (demo_loader None ([] :: (nat list \<times> nat list \<times> nat list list) list))
     = ld_target_idx (demo_loader None [([3::nat], [3::nat], [] :: nat list list)])"
    using target_idx_trimmed_once
            [THEN conjunct2, THEN conjunct2, THEN conjunct2, THEN conjunct2, THEN conjunct2,
             THEN conjunct2, THEN conjunct2, rule_format, OF e3] .
  show ?thesis
    using lp1 lp0 nd ed tl a1 a0 an ae at e1 e2 e3 f1 f2 f3 by blast
qed

section \<open>Properties of the config converter\<close>

lemma convert_files_wildcard:
  "convert_files fs = (if wildcard_files fs then Inl ValueError else Inr (file_list_of fs))"
  by (simp add: convert_files_def wildcard_files_def file_list_of_def Let_def)

lemma convert_features_unsupported:
  "(\<exists>feat \<in> set fs. \<exists>t. transform_name feat = Some t \<and> t \<noteq> ''no-op'') \<longleftrightarrow>
   convert_features fs = Inl ValueError"
  by (induction fs)
     (auto simp: convert_feature_def split: option.splits sum.splits if_splits)

lemma convert_optional_features_unsupported:
  "unsupported_transform feats \<longleftrightarrow> convert_optional_features feats = Inl ValueError"
proof (cases feats)
  case None
  then show ?thesis
    by (simp add: unsupported_transform_def convert_optional_features_def)
next
  case (Some fs)
  then show ?thesis
    using convert_features_unsupported[of fs]
    by (auto simp: unsupported_transform_def convert_optional_features_def split: sum.splits)
qed

lemma converter_error_ValueError: "(e :: converter_error) = ValueError"
  by (cases e) simp

lemma convert_node_rejects:
  "convert_node n = Inl ValueError \<longleftrightarrow>
     wildcard_files (gc_files n) \<or> unsupported_transform (gc_features n)"
  using convert_optional_features_unsupported[of "gc_features n"]
  by (auto simp: convert_node_def convert_files_wildcard split: sum.splits)

lemma convert_edge_rejects:
  "convert_edge e = Inl ValueError \<longleftrightarrow>
     wildcard_files (gce_files e) \<or> unsupported_transform (gce_features e)"
  using convert_optional_features_unsupported[of "gce_features e"]
  by (auto simp: convert_edge_def convert_files_wildcard split: sum.splits)

lemma convert_nodes_rejects:
  "convert_nodes ns = Inl ValueError \<longleftrightarrow>
     (\<exists>n \<in> set ns. wildcard_files (gc_files n) \<or> unsupported_transform (gc_features n))"
proof (induction ns)
  case Nil
  then show ?case by simp
next
  case (Cons n ns)
  show ?case
  proof (cases "convert_node n")
    case (Inl e)
    then have "convert_node n = Inl ValueError" by (simp add: converter_error_ValueError)
    then show ?thesis using convert_node_rejects[of n] by simp
  next
    case (Inr c)
    then have "\<not> (wildcard_files (gc_files n) \<or> unsupported_transform (gc_features n))"
      using convert_node_rejects[of n] by simp
    then show ?thesis
      using Inr Cons.IH
      by (cases "convert_nodes ns") (auto simp: converter_error_ValueError)
  qed
qed

lemma convert_edges_rejects:
  "convert_edges es = Inl ValueError \<longleftrightarrow>
     (\<exists>e \<in> set es. wildcard_files (gce_files e) \<or> unsupported_transform (gce_features e))"
proof (induction es)
  case Nil
  then show ?case by simp
next
  case (Cons e es)
  show ?case
  proof (cases "convert_edge e")
    case (Inl err)
    then have "convert_edge e = Inl ValueError" by (simp add: converter_error_ValueError)
    then show ?thesis using convert_edge_rejects[of e] by simp
  next
    case (Inr c)
    then have "\<not> (wildcard_files (gce_files e) \<or> unsupported_transform (gce_features e))"
      using convert_edge_rejects[of e] by simp
    then show ?thesis
      using Inr Cons.IH
      by (cases "convert_edges es") (auto simp: converter_error_ValueError)
  qed
qed

text \<open>
  Claim C9.  \<^verbatim>\<open>convert_nodes\<close> fails with \<^verbatim>\<open>ValueError\<close> when one of the node declarations
  has a file path containing a wildcard character (\<^verbatim>\<open>*\<close> or \<^verbatim>\<open>?\<close>), and when one of them
  has a feature whose transform is not the pass-through transform \<^verbatim>\<open>no-op\<close> (for example
  \<^verbatim>\<open>max_min_norm\<close>); \<^verbatim>\<open>convert_edges\<close> does the same for edge declarations.
\<close>

theorem converter_rejects:
  "(n \<in> set ns \<and> (wildcard_files (gc_files n) \<or> unsupported_transform (gc_features n)) \<longrightarrow>
      convert_nodes ns = Inl ValueError) \<and>
   (e \<in> set es \<and> (wildcard_files (gce_files e) \<or> unsupported_transform (gce_features e)) \<longrightarrow>
      convert_edges es = Inl ValueError) \<and>
   (CHR ''*'' \<in> set p \<or> CHR ''?'' \<in> set p \<longrightarrow>
      wildcard_files (Path p) \<and> wildcard_files (Paths (ps @ p # ps'))) \<and>
   (t \<noteq> ''no-op'' \<longrightarrow>
      unsupported_transform (Some (fs @ feat\<lparr>transform_name := Some t\<rparr> # fs')))"
proof (intro conjI impI)
  assume "n \<in> set ns \<and> (wildcard_files (gc_files n) \<or> unsupported_transform (gc_features n))"
  then show "convert_nodes ns = Inl ValueError"
    unfolding convert_nodes_rejects by blast
next
  assume "e \<in> set es \<and> (wildcard_files (gce_files e) \<or> unsupported_transform (gce_features e))"
  then show "convert_edges es = Inl ValueError"
    unfolding convert_edges_rejects by blast
next
  assume "CHR ''*'' \<in> set p \<or> CHR ''?'' \<in> set p"
  then show "wildcard_files (Path p)" "wildcard_files (Paths (ps @ p # ps'))"
    by (auto simp: wildcard_files_def file_list_of_def has_wildcard_def)
next
  assume "t \<noteq> ''no-op''"
  then show "unsupported_transform (Some (fs @ feat\<lparr>transform_name := Some t\<rparr> # fs'))"
    by (auto simp: unsupported_transform_def)
qed

theorem converter_rejects_witness:
  "convert_nodes [author_node\<lparr>gc_files := Path ''/tmp/acm_raw/nodes/author*.parquet''\<rparr>]
     = Inl ValueError \<and>
   convert_nodes [author_node, author_node\<lparr>gc_files := Paths [''/tmp/a.parquet'', ''/tmp/b?.parquet'']\<rparr>]
     = Inl ValueError \<and>
   convert_nodes
     [author_node\<lparr>gc_features :=
        Some [\<lparr>feature_col = (''citation_time'', []), feature_name = ''feat'',
               transform_name = Some ''max_min_norm''\<rparr>]\<rparr>]
     = Inl ValueError \<and>
   convert_edges [writing_edge\<lparr>gce_files := Path ''/tmp/acm_raw/edges/*.parquet''\<rparr>]
     = Inl ValueError \<and>
   convert_edges
     [writing_edge\<lparr>gce_features :=
        Some [\<lparr>feature_col = (''author'', []), feature_name = ''feat'',
               transform_name = Some ''max_min_norm''\<rparr>]\<rparr>]
     = Inl ValueError \<and>
   convert_nodes [author_node]
     = Inr [\<lparr>nc_node_type = ''author'', nc_file_format = ''parquet'',
             nc_files = [''/tmp/acm_raw/nodes/author.parquet''], nc_separator = Some '','',
             nc_column = ''node_id'', nc_features = None, nc_labels = None\<rparr>]"
proof -
  let ?f = "\<lparr>feature_col = (''citation_time'', []), feature_name = ''feat'',
               transform_name = None\<rparr>"
  let ?g = "\<lparr>feature_col = (''author'', []), feature_name = ''feat'', transform_name = None\<rparr>"
  let ?n1 = "author_node\<lparr>gc_files := Path ''/tmp/acm_raw/nodes/author*.parquet''\<rparr>"
  let ?n2 = "author_node\<lparr>gc_files := Paths [''/tmp/a.parquet'', ''/tmp/b?.parquet'']\<rparr>"
  let ?n3 = "author_node\<lparr>gc_features := Some [?f\<lparr>transform_name := Some ''max_min_norm''\<rparr>]\<rparr>"
  let ?e1 = "writing_edge\<lparr>gce_files := Path ''/tmp/acm_raw/edges/*.parquet''\<rparr>"
  let ?e3 = "writing_edge\<lparr>gce_features := Some [?g\<lparr>transform_name := Some ''max_min_norm''\<rparr>]\<rparr>"
  have w1: "wildcard_files (gc_files ?n1)"
    using converter_rejects[THEN conjunct2, THEN conjunct2, THEN conjunct1,
            of "''/tmp/acm_raw/nodes/author*.parquet''"]
    by simp
  have w2: "wildcard_files (gc_files ?n2)"
    using converter_rejects[THEN conjunct2, THEN conjunct2, THEN conjunct1,
            of "''/tmp/b?.parquet''" "[''/tmp/a.parquet'']" "[]"]
    by simp
  have w3: "unsupported_transform (gc_features ?n3)"
    using converter_rejects[THEN conjunct2, THEN conjunct2, THEN conjunct2,
            of "''max_min_norm''" "[]" ?f "[]"]
    by simp
  have w4: "wildcard_files (gce_files ?e1)"
    using converter_rejects[THEN conjunct2, THEN conjunct2, THEN conjunct1,
            of "''/tmp/acm_raw/edges/*.parquet''"]
    by simp
  have w5: "unsupported_transform (gce_features ?e3)"
    using converter_rejects[THEN conjunct2, THEN conjunct2, THEN conjunct2,
            of "''max_min_norm''" "[]" ?g "[]"]
    by simp
  have a1: "convert_nodes [?n1] = Inl ValueError"
    using converter_rejects[THEN conjunct1, of ?n1 "[?n1]"] w1 by simp
  have a2: "convert_nodes [author_node, ?n2] = Inl ValueError"
    using converter_rejects[THEN conjunct1, of ?n2 "[author_node, ?n2]"] w2 by simp
  have a3: "convert_nodes [?n3] = Inl ValueError"
    using converter_rejects[THEN conjunct1, of ?n3 "[?n3]"] w3 by simp
  have a4: "convert_edges [?e1] = Inl ValueError"
    using converter_rejects[THEN conjunct2, THEN conjunct1, of ?e1 "[?e1]"] w4 by simp
  have a5: "convert_edges [?e3] = Inl ValueError"
    using converter_rejects[THEN conjunct2, THEN conjunct1, of ?e3 "[?e3]"] w5 by simp
  have a6: "convert_nodes [author_node]
     = Inr [\<lparr>nc_node_type = ''author'', nc_file_format = ''parquet'',
             nc_files = [''/tmp/acm_raw/nodes/author.parquet''], nc_separator = Some '','',
             nc_column = ''node_id'', nc_features = None, nc_labels = None\<rparr>]"
    by (simp add: convert_node_def convert_files_def convert_optional_features_def
          author_node_def has_wildcard_def)
  from a1 a2 a3 a4 a5 a6 show ?thesis by simp
qed

subsection \<open>Length of an epoch of the per-etype loader\<close>

text \<open>
  From the start of an epoch, the \<open>k\<close>-th call of \<^verbatim>\<open>_next_data\<close> (counting from 0) returns a
  mini-batch exactly when \<open>k < expected_idxs\<close>: the attribute computed by \<^verbatim>\<open>_reinit_dataset\<close>
  is the number of mini-batches of an epoch, with and without \<^verbatim>\<open>drop_last\<close>.
\<close>

lemma foldl_advance_more_fields [simp]:
  "batch_size (foldl advance self ks) = batch_size self"
  "expected_idxs (foldl advance self ks) = expected_idxs self"
  "shuffle (foldl advance self ks) = shuffle self"
  by (induction ks arbitrary: self) simp_all

lemma advance_all_fields [simp]:
  "dataset (advance_all self) = dataset self"
  "data_idx (advance_all self) = data_idx self"
  "bs_per_type (advance_all self) = bs_per_type self"
  "drop_last (advance_all self) = drop_last self"
  "batch_size (advance_all self) = batch_size self"
  "expected_idxs (advance_all self) = expected_idxs self"
  by (simp_all add: advance_all_def)

lemma funpow_advance_all_fields [simp]:
  "dataset ((advance_all ^^ k) self) = dataset self"
  "bs_per_type ((advance_all ^^ k) self) = bs_per_type self"
  "drop_last ((advance_all ^^ k) self) = drop_last self"
  "batch_size ((advance_all ^^ k) self) = batch_size self"
  "expected_idxs ((advance_all ^^ k) self) = expected_idxs self"
  by (induction k) simp_all

lemma advance_pos_other_step:
  assumes "t \<noteq> k"
  shows "current_pos (advance (advance self k) t) t = current_pos (advance self t) t"
proof -
  have "current_pos (advance (advance self k) t) t =
          (if exhausted (advance self k) t then current_pos (advance self k) t
           else Some (etype_end_pos (advance self k) t))"
    by (simp add: advance_def[of "advance self k" t])
  also have "\<dots> = (if exhausted self t then current_pos self t
                      else Some (etype_end_pos self t))"
    using assms by (simp add: advance_other(1) advance_end_pos_other advance_current_pos_other)
  also have "\<dots> = current_pos (advance self t) t"
    by (simp add: advance_def[of self t])
  finally show ?thesis .
qed

lemma foldl_advance_pos:
  "distinct ks \<Longrightarrow>
   current_pos (foldl advance self ks) t =
     (if t \<in> set ks then current_pos (advance self t) t else current_pos self t)"
proof (induction ks arbitrary: self)
  case Nil
  then show ?case by simp
next
  case (Cons k ks)
  then have d: "distinct ks" and nk: "k \<notin> set ks" by simp_all
  show ?case
  proof (cases "t = k")
    case True
    then show ?thesis using Cons.IH[OF d, of "advance self k"] nk by simp
  next
    case False
    have "current_pos (advance (advance self k) t) t = current_pos (advance self t) t"
      using False by (rule advance_pos_other_step)
    then show ?thesis
      using Cons.IH[OF d, of "advance self k"] False
      by (simp add: advance_current_pos_other)
  qed
qed

lemma advance_pos_step:
  assumes "current_pos self t = Some (pos_after (drop_last self) bs (length c) k)"
    and "map_of (dataset self) t = Some c" and "bs_per_type self t = Some bs" and "1 \<le> bs"
  shows "current_pos (advance self t) t = Some (pos_after (drop_last self) bs (length c) (Suc k))"
proof (cases "drop_last self")
  case True
  let ?q = "int (length c) div bs"
  have q0: "0 \<le> ?q" using assms(4) by (simp add: pos_imp_zdiv_nonneg_iff)
  have dm: "?q * bs + int (length c) mod bs = int (length c)" by (rule div_mult_mod_eq)
  have m0: "0 \<le> int (length c) mod bs" and m1: "int (length c) mod bs < bs"
    using assms(4) by simp_all
  have qb: "?q * bs \<le> int (length c)" using dm m0 by linarith
  have qb1: "int (length c) < ?q * bs + bs" using dm m1 by linarith
  show ?thesis
  proof (cases "int k < ?q")
    case lt: True
    then have "(int k + 1) * bs \<le> ?q * bs" using assms(4) by (intro mult_right_mono) simp_all
    with qb have le: "int k * bs + bs \<le> int (length c)" by (simp add: algebra_simps)
    have ne: "int k * bs \<noteq> int (length c)" using le assms(4) by simp
    have "min (int (Suc k)) ?q = int k + 1" using lt by simp
    then show ?thesis
      using assms True lt le ne
      by (simp add: advance_def exhausted_def etype_end_pos_def pos_after_def min_def algebra_simps)
  next
    case ge: False
    then have m: "min (int k) ?q = ?q" "min (int (Suc k)) ?q = ?q" "min (1 + int k) ?q = ?q"
      by simp_all
    have "?q * bs = int (length c) \<or> int (length c) < ?q * bs + bs"
      using qb1 by simp
    then show ?thesis
      using assms True
      by (auto simp: advance_def exhausted_def pos_after_def m)
  qed
next
  case False
  show ?thesis
  proof (cases "int k * bs < int (length c)")
    case lt: True
    then show ?thesis
      using assms False
      by (simp add: advance_def exhausted_def etype_end_pos_def pos_after_def min_def algebra_simps)
  next
    case ge: False
    then have "int (length c) \<le> int k * bs" by simp
    moreover have "int (Suc k) * bs = int k * bs + bs" by (simp add: algebra_simps)
    ultimately have "int (length c) \<le> int (Suc k) * bs" using assms(4) by linarith
    then show ?thesis
      using assms False ge
      by (simp add: advance_def exhausted_def pos_after_def min_def)
  qed
qed

lemma ceiling_div_le_iff:
  assumes "0 < b"
  shows "\<lceil>real_of_int a / real_of_int b\<rceil> \<le> k \<longleftrightarrow> a \<le> k * b"
proof -
  have "\<lceil>real_of_int a / real_of_int b\<rceil> \<le> k
          \<longleftrightarrow> real_of_int a / real_of_int b \<le> real_of_int k"
    by (simp add: ceiling_le_iff)
  also have "\<dots> \<longleftrightarrow> real_of_int a \<le> real_of_int k * real_of_int b"
    using assms by (simp add: pos_divide_le_eq)
  also have "\<dots> \<longleftrightarrow> a \<le> k * b"
    by (metis of_int_le_iff of_int_mult)
  finally show ?thesis .
qed

lemma exhausted_after:
  assumes "current_pos self t = Some (pos_after (drop_last self) bs (length c) k)"
    and "map_of (dataset self) t = Some c" and "bs_per_type self t = Some bs" and "1 \<le> bs"
  shows "exhausted self t \<longleftrightarrow> type_expected_idxs (drop_last self) bs (length c) \<le> int k"
proof (cases "drop_last self")
  case True
  let ?q = "int (length c) div bs"
  have dm: "?q * bs + int (length c) mod bs = int (length c)" by (rule div_mult_mod_eq)
  have m0: "0 \<le> int (length c) mod bs" and m1: "int (length c) mod bs < bs"
    using assms(4) by simp_all
  have qb: "?q * bs \<le> int (length c)" using dm m0 by linarith
  have qb1: "int (length c) < ?q * bs + bs" using dm m1 by linarith
  show ?thesis
  proof (cases "int k < ?q")
    case lt: True
    then have "(int k + 1) * bs \<le> ?q * bs" using assms(4) by (intro mult_right_mono) simp_all
    with qb have le: "int k * bs + bs \<le> int (length c)" by (simp add: algebra_simps)
    have ne: "int k * bs \<noteq> int (length c)" using le assms(4) by simp
    show ?thesis
      using assms True lt le ne by (simp add: type_expected_idxs_def exhausted_def pos_after_def min_def)
  next
    case ge: False
    then have m: "min (int k) ?q = ?q" by simp
    show ?thesis
      using assms True ge qb1 by (simp add: type_expected_idxs_def exhausted_def pos_after_def m)
  qed
next
  case False
  have b: "0 < bs" using assms(4) by simp
  show ?thesis
    using assms False ceiling_div_le_iff[OF b, of "int (length c)" "int k"]
    by (auto simp: type_expected_idxs_def exhausted_def pos_after_def min_def)
qed

lemma funpow_advance_all_inv:
  "loader_inv self \<Longrightarrow> loader_inv ((advance_all ^^ k) self)"
  by (induction k) (simp_all add: advance_all_def foldl_advance_inv)

lemma pos_funpow:
  assumes "loader_inv self" and "at_start self"
    and "map_of (dataset self) t = Some c" and "bs_per_type self t = Some bs"
  shows "current_pos ((advance_all ^^ k) self) t
           = Some (pos_after (drop_last self) bs (length c) k)"
proof (induction k)
  case 0
  from assms(3) have tin: "t \<in> fst ` set (dataset self)" by (force dest: map_of_SomeD)
  with assms(1,4) have "1 \<le> bs" by (auto simp: loader_inv_def type_ok_def)
  then have "0 \<le> int (length c) div bs" by (simp add: pos_imp_zdiv_nonneg_iff)
  then have "pos_after (drop_last self) bs (length c) 0 = 0" by (simp add: pos_after_def)
  moreover from assms(2) tin have "current_pos self t = Some 0"
    unfolding at_start_def by blast
  ultimately show ?case by simp
next
  case (Suc k)
  let ?s = "(advance_all ^^ k) self"
  from assms(1) have d: "distinct (map fst (dataset ?s))" by (simp add: loader_inv_def)
  from assms(3) have tin: "t \<in> set (map fst (dataset ?s))" by (force dest: map_of_SomeD)
  from assms(1,4) tin have bs1: "1 \<le> bs" by (auto simp: loader_inv_def type_ok_def)
  have a: "advance_all ?s = foldl advance ?s (map fst (dataset ?s))"
    by (rule advance_all_def)
  have "current_pos (advance_all ?s) t = current_pos (advance ?s t) t"
    unfolding a foldl_advance_pos[OF d] using tin by (simp only: if_True)
  also have "\<dots> = Some (pos_after (drop_last ?s) bs (length c) (Suc k))"
    using Suc assms(3,4) bs1 by (intro advance_pos_step) simp_all
  finally show ?case by simp
qed

lemma constructed_sized:
  assumes "distinct (map fst eids)" and "AllEtypeDistEdgeDataLoader eids B sh dl = Inr self"
  shows "sized self \<and> at_start self"
proof -
  let ?s0 = "\<lparr>dataset = eids, batch_size = B, shuffle = sh, drop_last = dl,
               data_idx = [], bs_per_type = Map.empty, expected_idxs = 0,
               current_pos = Map.empty, recv_idxs = 0, num_pending = 0\<rparr>"
  from assms(2) have r: "reinit_dataset ?s0 = Inr self"
    by (simp add: AllEtypeDistEdgeDataLoader_def)
  have d: "distinct (map fst (dataset ?s0))" using assms(1) by simp
  note R = reinit_dataset_Inr[OF r d]
  have "current_pos self t = Some 0" if "t \<in> fst ` set eids" for t
  proof -
    from that obtain c where "(t, c) \<in> set eids" by auto
    with assms(1) have "map_of eids t = Some c" by simp
    then have "map_of (map (\<lambda>(key, val). (key, 0::int)) eids) t = Some 0"
      by (rule map_of_map_key)
    with R show ?thesis by simp
  qed
  with R show ?thesis by (simp add: sized_def at_start_def)
qed

lemma loader_iter_sized:
  "sized self \<Longrightarrow> sized (loader_iter randperm self)"
  by (simp add: sized_def loader_iter_def Let_def)

lemma loader_iter_at_start:
  assumes "loader_inv self"
  shows "at_start (loader_iter randperm self)"
proof -
  have "current_pos (loader_iter randperm self) t = Some 0" if "t \<in> fst ` set (dataset self)" for t
  proof -
    from assms that have "type_ok self t" by (auto simp: loader_inv_def)
    then obtain idxs where i: "map_of (data_idx self) t = Some idxs" by (auto simp: type_ok_def)
    then have "map_of (map (\<lambda>(etype, idxs). (etype, randperm etype)) (data_idx self)) t
                 = Some (randperm t)"
      by (rule map_of_map_key)
    then have "\<exists>idxs'. map_of (if shuffle self
             then map (\<lambda>(etype, idxs). (etype, randperm etype)) (data_idx self)
             else data_idx self) t = Some idxs'"
      using i by (cases "shuffle self") simp_all
    then obtain idxs' where "map_of (if shuffle self
             then map (\<lambda>(etype, idxs). (etype, randperm etype)) (data_idx self)
             else data_idx self) t = Some idxs'" ..
    then have "map_of (map (\<lambda>(etype, _). (etype, 0::int)) (if shuffle self
             then map (\<lambda>(etype, idxs). (etype, randperm etype)) (data_idx self)
             else data_idx self)) t = Some 0"
      by (rule map_of_map_key)
    then show ?thesis by (simp add: loader_iter_def Let_def)
  qed
  then show ?thesis by (simp add: at_start_def loader_iter_def Let_def)
qed

lemma next_data_sized:
  assumes "loader_inv self" and "sized self" and "next_data rand self = Inr (batch, self')"
  shows "sized self'"
proof -
  from assms(3) have "self' = foldl advance self (map fst (dataset self))"
    unfolding next_data_ok[OF assms(1)] by simp
  with assms(2) show ?thesis by (simp add: sized_def)
qed

lemma reachable_sized: "reachable self \<Longrightarrow> sized self"
proof (induction rule: reachable.induct)
  case (constructed eids B sh dl self)
  then show ?case using constructed_sized by blast
next
  case (iter self randperm)
  then show ?case by (simp add: loader_iter_sized)
next
  case (step self rand batch self')
  then show ?case using next_data_sized reachable_inv by blast
qed

lemma epoch_length_general:
  assumes inv: "loader_inv self" and sz: "sized self" and st: "at_start self"
  shows "next_data rand ((advance_all ^^ k) self) =
           Inr (if expected_idxs self \<le> int k then None
                else Some (concat (map (contribution rand ((advance_all ^^ k) self))
                                       (map fst (dataset self)))),
                (advance_all ^^ Suc k) self)"
proof -
  let ?s = "(advance_all ^^ k) self"
  let ?E = "\<lambda>(t, c). type_expected_idxs (drop_last self) (the (bs_per_type self t)) (length c)"
  have invk: "loader_inv ?s" using inv by (rule funpow_advance_all_inv)
  have ex: "exhausted ?s t \<longleftrightarrow> ?E (t, c) \<le> int k" if tc: "(t, c) \<in> set (dataset self)" for t c
  proof -
    from inv tc have look: "map_of (dataset self) t = Some c" by (simp add: loader_inv_def)
    from inv tc obtain bs where bs: "bs_per_type self t = Some bs" and bs1: "1 \<le> bs"
      by (force simp: loader_inv_def type_ok_def)
    note p = pos_funpow[OF inv st look bs, of k]
    have "exhausted ?s t \<longleftrightarrow> type_expected_idxs (drop_last ?s) bs (length c) \<le> int k"
      using p look bs bs1 by (intro exhausted_after) simp_all
    then show ?thesis by (simp add: bs)
  qed
  have "(\<forall>t \<in> fst ` set (dataset ?s). exhausted ?s t) \<longleftrightarrow> expected_idxs self \<le> int k"
  proof -
    have "(\<forall>t \<in> fst ` set (dataset ?s). exhausted ?s t)
            \<longleftrightarrow> (\<forall>p \<in> set (dataset self). ?E p \<le> int k)"
      using ex by (auto; force)
    also have "\<dots> \<longleftrightarrow> Max (insert 0 (?E ` set (dataset self))) \<le> int k"
      by (subst Max_le_iff) auto
    also have "\<dots> \<longleftrightarrow> expected_idxs self \<le> int k"
      using sz by (simp add: sized_def)
    finally show ?thesis .
  qed
  then show ?thesis
    unfolding next_data_ok[OF invk] by (simp add: advance_all_def)
qed

lemma epoch_starts:
  "distinct (map fst eids) \<Longrightarrow> AllEtypeDistEdgeDataLoader eids B sh dl = Inr self \<Longrightarrow> at_start self"
  "reachable self \<Longrightarrow> at_start (loader_iter randperm self)"
  using constructed_sized loader_iter_at_start reachable_inv by blast+

lemma epoch_length:
  assumes "reachable self" and "at_start self"
  shows "next_data rand ((advance_all ^^ k) self) =
           Inr (if expected_idxs self \<le> int k then None
                else Some (concat (map (contribution rand ((advance_all ^^ k) self))
                                       (map fst (dataset self)))),
                (advance_all ^^ Suc k) self)"
  using assms by (intro epoch_length_general reachable_inv reachable_sized)

end
